theory Spec2Isabelle
  imports Main "HOL-Library.Word"
begin

unbundle bit_operations_syntax

section \<open>The sample handed to a decoder\<close>

text \<open>
  The flags of \<^verbatim>\<open>Sound_Sample\<close>. The C code keeps them as independent bits of one
  integer (\<^verbatim>\<open>sample->flags |= SOUND_SAMPLEFLAG_EOF\<close>); the bit values live in
  \<^verbatim>\<open>SDL_sound.h\<close>. A set of flags has the same operations: \<^verbatim>\<open>|=\<close> is
  \<open>insert\<close>, \<^verbatim>\<open>flags & F\<close> is membership, \<^verbatim>\<open>SOUND_SAMPLEFLAG_NONE\<close> is \<open>{}\<close>.
\<close>

datatype Sound_SampleFlags =
    SOUND_SAMPLEFLAG_CANSEEK
  | SOUND_SAMPLEFLAG_EOF
  | SOUND_SAMPLEFLAG_ERROR
  | SOUND_SAMPLEFLAG_EAGAIN

datatype audio_format = AUDIO_S8 | AUDIO_S16MSB | AUDIO_S16SYS | SDL_AUDIO_F32 | AUDIO_UNSET

text \<open>
  \<^verbatim>\<open>Sound_Sample\<close> together with its \<^verbatim>\<open>Sound_SampleInternal\<close> (\<^verbatim>\<open>sample->opaque\<close>):
  the fields the two decoders touch. \<^verbatim>\<open>decoder_private\<close> is a \<^verbatim>\<open>void *\<close> in C and
  a type parameter here; \<open>rw\<close> is the stream handle, whose state is external.
  \<^verbatim>\<open>buffer_size\<close> is \<^verbatim>\<open>Uint32\<close>, \<^verbatim>\<open>total_time\<close> is \<^verbatim>\<open>Sint32\<close> (read with \<open>sint\<close>),
  \<^verbatim>\<open>actual.channels\<close> is \<^verbatim>\<open>Uint8\<close> and \<^verbatim>\<open>actual.rate\<close> is \<^verbatim>\<open>Uint32\<close>, as declared in
  \<^verbatim>\<open>SDL_sound_internal.h\<close> and \<^verbatim>\<open>SDL_sound.h\<close>.
\<close>

record ('rw, 'priv) Sound_Sample =
  rw :: 'rw
  buffer :: "8 word list"
  buffer_size :: "32 word"
  decoder_private :: 'priv
  total_time :: "32 word"
  flags :: "Sound_SampleFlags set"
  actual_format :: audio_format
  actual_channels :: "8 word"
  actual_rate :: "32 word"

section \<open>The MPEG decoder (SDL_sound_mp3.c)\<close>

subsection \<open>Stream bridge: \<^verbatim>\<open>mp3_read\<close>\<close>

text \<open>
  \<^verbatim>\<open>SDL_ReadIO(rwops, ptr, size)\<close> is external: it is a parameter \<open>SDL_ReadIO\<close> that
  takes the stream state and the requested size and returns the bytes it delivered
  (its return value \<open>rc\<close> is their number) and the new stream state. All sizes are
  \<^verbatim>\<open>size_t\<close>, 64 bits wide here. The bytes stored through \<^verbatim>\<open>ptr\<close>, which advances by
  \<open>rc\<close> after every call, are the list \<open>out\<close>.

  The loop has no bound of its own, so it is a partial function: \<open>None\<close> is a loop
  that never ends.
\<close>

partial_function (option) mp3_read_loop ::
  "('rw \<Rightarrow> 64 word \<Rightarrow> 8 word list \<times> 'rw) \<Rightarrow> 'rw \<Rightarrow> 8 word list \<Rightarrow> 64 word \<Rightarrow> 64 word
     \<Rightarrow> (64 word \<times> 8 word list \<times> 'rw) option"
where
  "mp3_read_loop SDL_ReadIO rwops out bytesToRead retval =
     (if bytesToRead = 0 then Some (retval, out, rwops)
      else
        (case SDL_ReadIO rwops bytesToRead of (chunk, rwops') \<Rightarrow>
           (let rc = (of_nat (length chunk) :: 64 word) in
            if rc = 0 then Some (retval, out, rwops')
            else mp3_read_loop SDL_ReadIO rwops' (out @ chunk) (bytesToRead - rc) (retval + rc))))"

definition mp3_read ::
  "('rw \<Rightarrow> 64 word \<Rightarrow> 8 word list \<times> 'rw) \<Rightarrow> 'rw \<Rightarrow> 64 word
     \<Rightarrow> (64 word \<times> 8 word list \<times> 'rw) option"
where
  "mp3_read SDL_ReadIO rwops bytesToRead = mp3_read_loop SDL_ReadIO rwops [] bytesToRead 0"

subsection \<open>The decompressor context\<close>

text \<open>
  \<^verbatim>\<open>drmp3\<close> is the context of the wrapped decompressor (dr_mp3). The decoder reads
  its fields \<^verbatim>\<open>channels\<close> and \<^verbatim>\<open>sampleRate\<close> (both \<^verbatim>\<open>drmp3_uint32\<close>); the rest is
  opaque. The decompressor's entry points are parameters of the decoder functions
  below; each is given the context, the stream it reads through the bridge and, where
  it writes samples, the scratch buffer, and returns them updated.
\<close>

record 'd drmp3 =
  channels :: "32 word"
  sampleRate :: "32 word"
  internals :: 'd

datatype mp3_error = ERR_OUT_OF_MEMORY | ERR_IO_ERROR | ERR_NOT_MP3 | UNDEFINED_DIVISION_BY_ZERO

subsection \<open>\<^verbatim>\<open>MP3_open\<close>\<close>

text \<open>
  The duration computed at the end of \<^verbatim>\<open>MP3_open\<close>. \<open>frames\<close> is \<^verbatim>\<open>Uint64\<close>, \<open>rate\<close>
  is \<^verbatim>\<open>Uint32\<close>, so both lines compute in unsigned 64-bit arithmetic; the assignment
  and the \<^verbatim>\<open>+=\<close> then convert to the \<^verbatim>\<open>Sint32\<close> field. A zero \<open>rate\<close> with a nonzero
  frame count divides by zero, which C leaves undefined: \<open>None\<close>.
\<close>

definition MP3_total_time :: "64 word \<Rightarrow> 32 word \<Rightarrow> 32 word option" where
  "MP3_total_time frames rate =
     (if frames = 0 then Some (- 1)
      else if rate = 0 then None
      else
        (let t1 = (ucast ((frames div ucast rate) * 1000) :: 32 word);
             t2 = (ucast ((scast t1 :: 64 word) + ((frames mod ucast rate) * 1000) div ucast rate)
                     :: 32 word)
         in Some t2))"

text \<open>
  \<open>calloc_ok\<close> is whether \<^verbatim>\<open>SDL_calloc\<close> returned memory; \<open>drmp3_init\<close> is the outcome
  of the decompressor's initialisation on the stream (\<open>None\<close> when it did not return
  \<^verbatim>\<open>DRMP3_TRUE\<close>), with the stream as it left it.
\<close>

definition MP3_open ::
  "bool \<Rightarrow> ('rw \<Rightarrow> 'd drmp3 option \<times> 'rw) \<Rightarrow> ('d drmp3 \<Rightarrow> 64 word)
     \<Rightarrow> ('rw, 'p) Sound_Sample
     \<Rightarrow> mp3_error + ('rw, 'd drmp3) Sound_Sample"
where
  "MP3_open calloc_ok drmp3_init drmp3_get_pcm_frame_count sample =
     (if \<not> calloc_ok then Inl ERR_OUT_OF_MEMORY
      else
        (case drmp3_init (rw sample) of
           (None, rw') \<Rightarrow>
             (if SOUND_SAMPLEFLAG_ERROR \<in> flags sample then Inl ERR_IO_ERROR
              else Inl ERR_NOT_MP3)
         | (Some dr, rw') \<Rightarrow>
             (case MP3_total_time (drmp3_get_pcm_frame_count dr) (sampleRate dr) of
                None \<Rightarrow> Inl UNDEFINED_DIVISION_BY_ZERO
              | Some t \<Rightarrow>
                  Inr \<lparr> rw = rw',
                        buffer = buffer sample,
                        buffer_size = buffer_size sample,
                        decoder_private = dr,
                        total_time = t,
                        flags = {SOUND_SAMPLEFLAG_CANSEEK},
                        actual_format = SDL_AUDIO_F32,
                        actual_channels = ucast (channels dr),
                        actual_rate = sampleRate dr \<rparr>)))"

subsection \<open>\<^verbatim>\<open>MP3_read\<close>, \<^verbatim>\<open>MP3_rewind\<close>, \<^verbatim>\<open>MP3_seek\<close>\<close>

text \<open>
  \<^verbatim>\<open>frames_to_read = (internal->buffer_size / channels) / sizeof (float)\<close>: the first
  division is between a \<^verbatim>\<open>Uint32\<close> and the \<^verbatim>\<open>int\<close> \<open>channels\<close> (a widened \<^verbatim>\<open>Uint8\<close>),
  so it is an unsigned 32-bit division; the second is by the \<^verbatim>\<open>size_t\<close> constant 4.
\<close>

definition MP3_frames_to_read :: "('rw, 'd drmp3) Sound_Sample \<Rightarrow> 64 word" where
  "MP3_frames_to_read sample =
     ucast (buffer_size sample div (ucast (actual_channels sample) :: 32 word)) div 4"

text \<open>
  \<open>drmp3_read_pcm_frames_f32\<close> is the decompressor's read: from the context, the
  stream, the scratch buffer and the number of frames wanted it gives the number of
  frames decoded \<open>rc\<close> and the three updated. Dividing by a zero channel count is
  undefined in C: \<open>None\<close>. The product \<^verbatim>\<open>rc * channels * sizeof (float)\<close> is computed in
  64 bits and returned as \<^verbatim>\<open>Uint32\<close>.
\<close>

definition MP3_read ::
  "('d drmp3 \<Rightarrow> 'rw \<Rightarrow> 8 word list \<Rightarrow> 64 word \<Rightarrow> 64 word \<times> 'd drmp3 \<times> 'rw \<times> 8 word list)
     \<Rightarrow> ('rw, 'd drmp3) Sound_Sample \<Rightarrow> (32 word \<times> ('rw, 'd drmp3) Sound_Sample) option"
where
  "MP3_read drmp3_read_pcm_frames_f32 sample =
     (let channels = (ucast (actual_channels sample) :: 32 word) in
      if channels = 0 then None
      else
        (let frames_to_read = MP3_frames_to_read sample in
         case drmp3_read_pcm_frames_f32 (decoder_private sample) (rw sample) (buffer sample)
                frames_to_read of
           (rc, dr', rw', buffer') \<Rightarrow>
             Some (ucast (rc * ucast channels * 4),
                   sample\<lparr> rw := rw', buffer := buffer', decoder_private := dr',
                           flags := (if rc < frames_to_read
                                     then insert SOUND_SAMPLEFLAG_EOF (flags sample)
                                     else flags sample) \<rparr>)))"

text \<open>
  \<open>drmp3_seek_to_pcm_frame\<close> is the decompressor's seek: whether it returned
  \<^verbatim>\<open>DRMP3_TRUE\<close>, and the updated context and stream.
\<close>

definition MP3_rewind ::
  "('d drmp3 \<Rightarrow> 'rw \<Rightarrow> 64 word \<Rightarrow> bool \<times> 'd drmp3 \<times> 'rw)
     \<Rightarrow> ('rw, 'd drmp3) Sound_Sample \<Rightarrow> bool \<times> ('rw, 'd drmp3) Sound_Sample"
where
  "MP3_rewind drmp3_seek_to_pcm_frame sample =
     (case drmp3_seek_to_pcm_frame (decoder_private sample) (rw sample) 0 of
        (ok, dr', rw') \<Rightarrow> (ok, sample\<lparr> rw := rw', decoder_private := dr' \<rparr>))"

text \<open>
  \<^verbatim>\<open>MP3_seek\<close> turns milliseconds into a frame index in single-precision floating
  point; that conversion is the parameter \<open>frame_offset\<close> (from the rate and the
  milliseconds).
\<close>

definition MP3_seek ::
  "('d drmp3 \<Rightarrow> 'rw \<Rightarrow> 64 word \<Rightarrow> bool \<times> 'd drmp3 \<times> 'rw) \<Rightarrow> (32 word \<Rightarrow> 32 word \<Rightarrow> 64 word)
     \<Rightarrow> ('rw, 'd drmp3) Sound_Sample \<Rightarrow> 32 word \<Rightarrow> bool \<times> ('rw, 'd drmp3) Sound_Sample"
where
  "MP3_seek drmp3_seek_to_pcm_frame frame_offset sample ms =
     (case drmp3_seek_to_pcm_frame (decoder_private sample) (rw sample)
             (frame_offset (actual_rate sample) ms) of
        (ok, dr', rw') \<Rightarrow> (ok, sample\<lparr> rw := rw', decoder_private := dr' \<rparr>))"

section \<open>The Sun/NeXT container decoder (au.c)\<close>

text \<open>\<^verbatim>\<open>struct audec\<close>: \<open>remaining\<close> is \<^verbatim>\<open>unsigned\<close>, \<open>encoding\<close> is \<^verbatim>\<open>int\<close>.\<close>

record audec =
  remaining :: "32 word"
  encoding :: "32 word"

definition AU_ENC_ULAW_8 :: "32 word" where "AU_ENC_ULAW_8 = 1"
definition AU_ENC_LINEAR_8 :: "32 word" where "AU_ENC_LINEAR_8 = 2"
definition AU_ENC_LINEAR_16 :: "32 word" where "AU_ENC_LINEAR_16 = 3"
definition AU_MAGIC :: "32 word" where "AU_MAGIC = 0x646E732E"

datatype au_error = ERR_AU_OUT_OF_MEMORY | ERR_AU_BAD_HEADER | ERR_AU_UNSUPPORTED_ENCODING

subsection \<open>The stream primitives\<close>

text \<open>
  \<^verbatim>\<open>SDL_RWread(rw, ptr, 1, maxnum)\<close> is external: a parameter \<open>SDL_RWread\<close> that takes
  the stream state and \<open>maxnum\<close> (an \<^verbatim>\<open>int\<close>) and returns either \<open>None\<close>, a failed read
  (the C function returns \<open>-1\<close>), or the bytes it stored through \<open>ptr\<close> (it returns
  their number), with the new stream state. \<open>rwread_ret\<close> is the \<^verbatim>\<open>int\<close> the C caller
  sees.
\<close>

definition rwread_ret :: "8 word list option \<Rightarrow> 32 word" where
  "rwread_ret res = (case res of None \<Rightarrow> - 1 | Some bs \<Rightarrow> of_nat (length bs))"

text \<open>Storing the bytes \<open>bs\<close> into the buffer from offset \<open>off\<close> on.\<close>

definition store_bytes :: "8 word list \<Rightarrow> nat \<Rightarrow> 8 word list \<Rightarrow> 8 word list" where
  "store_bytes buf off bs = take off buf @ bs @ drop (off + length bs) buf"

text \<open>The value of the four bytes at offset \<open>off\<close> read in little or big endian order.\<close>

definition le32 :: "8 word list \<Rightarrow> nat \<Rightarrow> 32 word" where
  "le32 hdr off =
     ucast (hdr ! off) OR push_bit 8 (ucast (hdr ! (off + 1)))
       OR push_bit 16 (ucast (hdr ! (off + 2))) OR push_bit 24 (ucast (hdr ! (off + 3)))"

definition be32 :: "8 word list \<Rightarrow> nat \<Rightarrow> 32 word" where
  "be32 hdr off =
     push_bit 24 (ucast (hdr ! off)) OR push_bit 16 (ucast (hdr ! (off + 1)))
       OR push_bit 8 (ucast (hdr ! (off + 2))) OR ucast (hdr ! (off + 3))"

text \<open>
  Modelled from the spec: \<^verbatim>\<open>__Sound_strcasecmp\<close> is defined outside the listed sources;
  the spec says the extension hint is compared ``case-insensitively''.
  \<open>Sound_strcasecmp_eq x y\<close> stands for \<^verbatim>\<open>__Sound_strcasecmp(x, y) == 0\<close>.
\<close>

definition ascii_toupper :: "char \<Rightarrow> char" where
  "ascii_toupper c =
     (case map_of (zip ''abcdefghijklmnopqrstuvwxyz'' ''ABCDEFGHIJKLMNOPQRSTUVWXYZ'') c of
        None \<Rightarrow> c | Some u \<Rightarrow> u)"

definition Sound_strcasecmp_eq :: "string \<Rightarrow> string \<Rightarrow> bool" where
  "Sound_strcasecmp_eq x y = (map ascii_toupper x = map ascii_toupper y)"

subsection \<open>\<^verbatim>\<open>AU_open\<close>\<close>

text \<open>The \<^verbatim>\<open>switch\<close> on the declared encoding; \<open>None\<close> is its \<^verbatim>\<open>default\<close> branch.\<close>

definition AU_format_of_encoding :: "32 word \<Rightarrow> audio_format option" where
  "AU_format_of_encoding enc =
     (if enc = AU_ENC_ULAW_8 then Some AUDIO_S16SYS
      else if enc = AU_ENC_LINEAR_8 then Some AUDIO_S8
      else if enc = AU_ENC_LINEAR_16 then Some AUDIO_S16MSB
      else None)"

text \<open>The loop that reads and drops one byte at a time, \<open>n\<close> times.\<close>

fun AU_skip_header :: "('rw \<Rightarrow> 32 word \<Rightarrow> 8 word list option \<times> 'rw) \<Rightarrow> 'rw \<Rightarrow> nat \<Rightarrow> 'rw" where
  "AU_skip_header SDL_RWread rw0 0 = rw0"
| "AU_skip_header SDL_RWread rw0 (Suc n) = AU_skip_header SDL_RWread (snd (SDL_RWread rw0 1)) n"

text \<open>
  \<open>malloc_dec\<close> is what \<^verbatim>\<open>malloc(sizeof *dec)\<close> returned: \<open>None\<close> for \<^verbatim>\<open>NULL\<close>, otherwise
  the block with whatever it holds. \<open>SDL_RWseek\<close> moves the stream by a signed offset
  from the current position; its result is ignored by the code. \<open>Inl\<close> is
  \<^verbatim>\<open>return 0\<close> with the error set, \<open>Inr\<close> is \<^verbatim>\<open>return 1\<close>.

  The chain \<^verbatim>\<open>if (magic matches) ... else if (extension is "au") ...\<close> has no final
  \<^verbatim>\<open>else\<close>: when neither holds, control reaches the common tail, which clears the
  flags and returns 1 with \<open>dec\<close> as \<^verbatim>\<open>malloc\<close> left it.
\<close>

definition AU_open ::
  "audec option \<Rightarrow> ('rw \<Rightarrow> 32 word \<Rightarrow> 8 word list option \<times> 'rw) \<Rightarrow> ('rw \<Rightarrow> int \<Rightarrow> 'rw)
     \<Rightarrow> ('rw, 'p) Sound_Sample \<Rightarrow> string \<Rightarrow> au_error + ('rw, audec) Sound_Sample"
where
  "AU_open malloc_dec SDL_RWread SDL_RWseek sample ext =
     (case malloc_dec of
        None \<Rightarrow> Inl ERR_AU_OUT_OF_MEMORY
      | Some dec \<Rightarrow>
          (case SDL_RWread (rw sample) 24 of
             (res, rw1) \<Rightarrow>
               if rwread_ret res <s 24 then Inl ERR_AU_BAD_HEADER
               else
                 (let hdr = take 24 (case res of None \<Rightarrow> [] | Some bs \<Rightarrow> bs) in
                  if le32 hdr 0 = AU_MAGIC then
                    (case AU_format_of_encoding (be32 hdr 12) of
                       None \<Rightarrow> Inl ERR_AU_UNSUPPORTED_ENCODING
                     | Some fmt \<Rightarrow>
                         Inr \<lparr> rw = AU_skip_header SDL_RWread rw1 (nat (sint (be32 hdr 4) - 24)),
                               buffer = buffer sample,
                               buffer_size = buffer_size sample,
                               decoder_private =
                                 \<lparr> remaining = be32 hdr 8, encoding = be32 hdr 12 \<rparr>,
                               total_time = total_time sample,
                               flags = {},
                               actual_format = fmt,
                               actual_channels = ucast (be32 hdr 20),
                               actual_rate = be32 hdr 16 \<rparr>)
                  else if Sound_strcasecmp_eq ext ''au'' then
                    Inr \<lparr> rw = SDL_RWseek rw1 (- 24),
                          buffer = buffer sample,
                          buffer_size = buffer_size sample,
                          decoder_private = \<lparr> remaining = - 1, encoding = AU_ENC_ULAW_8 \<rparr>,
                          total_time = total_time sample,
                          flags = {},
                          actual_format = AUDIO_S16SYS,
                          actual_channels = 1,
                          actual_rate = 8000 \<rparr>
                  else
                    Inr \<lparr> rw = rw1,
                          buffer = buffer sample,
                          buffer_size = buffer_size sample,
                          decoder_private = dec,
                          total_time = total_time sample,
                          flags = {},
                          actual_format = actual_format sample,
                          actual_channels = actual_channels sample,
                          actual_rate = actual_rate sample \<rparr>)))"

subsection \<open>\<^verbatim>\<open>AU_read\<close>\<close>

text \<open>The table \<^verbatim>\<open>ulaw_to_linear[256]\<close> of \<^verbatim>\<open>Sint16\<close>, indexed by a byte.\<close>

definition ulaw_to_linear_table :: "16 word list" where
  "ulaw_to_linear_table =
    [
     - 32124, - 31100, - 30076, - 29052, - 28028, - 27004, - 25980, - 24956,
     - 23932, - 22908, - 21884, - 20860, - 19836, - 18812, - 17788, - 16764,
     - 15996, - 15484, - 14972, - 14460, - 13948, - 13436, - 12924, - 12412,
     - 11900, - 11388, - 10876, - 10364, - 9852, - 9340, - 8828, - 8316,
     - 7932, - 7676, - 7420, - 7164, - 6908, - 6652, - 6396, - 6140,
     - 5884, - 5628, - 5372, - 5116, - 4860, - 4604, - 4348, - 4092,
     - 3900, - 3772, - 3644, - 3516, - 3388, - 3260, - 3132, - 3004,
     - 2876, - 2748, - 2620, - 2492, - 2364, - 2236, - 2108, - 1980,
     - 1884, - 1820, - 1756, - 1692, - 1628, - 1564, - 1500, - 1436,
     - 1372, - 1308, - 1244, - 1180, - 1116, - 1052, - 988, - 924,
     - 876, - 844, - 812, - 780, - 748, - 716, - 684, - 652,
     - 620, - 588, - 556, - 524, - 492, - 460, - 428, - 396,
     - 372, - 356, - 340, - 324, - 308, - 292, - 276, - 260,
     - 244, - 228, - 212, - 196, - 180, - 164, - 148, - 132,
     - 120, - 112, - 104, - 96, - 88, - 80, - 72, - 64,
     - 56, - 48, - 40, - 32, - 24, - 16, - 8, 0,
     32124, 31100, 30076, 29052, 28028, 27004, 25980, 24956,
     23932, 22908, 21884, 20860, 19836, 18812, 17788, 16764,
     15996, 15484, 14972, 14460, 13948, 13436, 12924, 12412,
     11900, 11388, 10876, 10364, 9852, 9340, 8828, 8316,
     7932, 7676, 7420, 7164, 6908, 6652, 6396, 6140,
     5884, 5628, 5372, 5116, 4860, 4604, 4348, 4092,
     3900, 3772, 3644, 3516, 3388, 3260, 3132, 3004,
     2876, 2748, 2620, 2492, 2364, 2236, 2108, 1980,
     1884, 1820, 1756, 1692, 1628, 1564, 1500, 1436,
     1372, 1308, 1244, 1180, 1116, 1052, 988, 924,
     876, 844, 812, 780, 748, 716, 684, 652,
     620, 588, 556, 524, 492, 460, 428, 396,
     372, 356, 340, 324, 308, 292, 276, 260,
     244, 228, 212, 196, 180, 164, 148, 132,
     120, 112, 104, 96, 88, 80, 72, 64,
     56, 48, 40, 32, 24, 16, 8, 0
    ]"

definition ulaw_to_linear :: "8 word \<Rightarrow> 16 word" where
  "ulaw_to_linear b = ulaw_to_linear_table ! unat b"

text \<open>
  A \<^verbatim>\<open>Sint16\<close> is stored in the byte order of the host, which is the parameter
  \<open>big_endian\<close>. \<open>sample_bytes\<close> are its two bytes in memory order, and \<open>store16\<close> is
  the assignment \<^verbatim>\<open>dst[i] = v\<close> for \<^verbatim>\<open>Sint16 *dst = internal->buffer\<close>.
\<close>

definition sample_bytes :: "bool \<Rightarrow> 16 word \<Rightarrow> 8 word list" where
  "sample_bytes big_endian v =
     (if big_endian then [ucast (drop_bit 8 v), ucast v] else [ucast v, ucast (drop_bit 8 v)])"

definition store16 :: "bool \<Rightarrow> 8 word list \<Rightarrow> nat \<Rightarrow> 16 word \<Rightarrow> 8 word list" where
  "store16 big_endian buf i v =
     (buf[2 * i := sample_bytes big_endian v ! 0])[2 * i + 1 := sample_bytes big_endian v ! 1]"

text \<open>
  The expansion loop \<^verbatim>\<open>for (i = 0; i < ret; i++) dst[i] = ulaw_to_linear[buf[i]];\<close>
  where \<open>buf\<close> points \<open>off\<close> bytes into the buffer that \<open>dst\<close> points to: each step reads
  the byte at \<open>off + i\<close> and then writes the bytes at \<open>2 * i\<close> and \<open>2 * i + 1\<close> of the
  same buffer.
\<close>

function ulaw_expand :: "bool \<Rightarrow> nat \<Rightarrow> nat \<Rightarrow> nat \<Rightarrow> 8 word list \<Rightarrow> 8 word list" where
  "ulaw_expand big_endian off ret i buf =
     (if i < ret
      then ulaw_expand big_endian off ret (Suc i)
             (store16 big_endian buf i (ulaw_to_linear (buf ! (off + i))))
      else buf)"
  by pat_completeness auto
termination
  by (relation "measure (\<lambda>(big_endian, off, ret, i, buf). ret - i)") auto

text \<open>
  Expanding from a separate copy: the bytes of the samples that the table gives for the
  raw bytes \<open>raw\<close>, one after the other. This is what the in-place loop is compared with.
\<close>

definition ulaw_expand_copy :: "bool \<Rightarrow> 8 word list \<Rightarrow> 8 word list" where
  "ulaw_expand_copy big_endian raw =
     concat (map (\<lambda>b. sample_bytes big_endian (ulaw_to_linear b)) raw)"

text \<open>
  \<open>maxlen\<close> after \<^verbatim>\<open>maxlen = internal->buffer_size\<close> and the halving for \<mu>-law (an
  arithmetic shift of an \<^verbatim>\<open>int\<close>), then the offset added to \<open>buf\<close>, then the length
  asked of the stream: the comparison \<^verbatim>\<open>maxlen > dec->remaining\<close> is between an \<^verbatim>\<open>int\<close>
  and an \<^verbatim>\<open>unsigned\<close>, so it is unsigned.
\<close>

definition AU_maxlen0 :: "('rw, audec) Sound_Sample \<Rightarrow> 32 word" where
  "AU_maxlen0 sample =
     (if encoding (decoder_private sample) = AU_ENC_ULAW_8
      then signed_drop_bit 1 (buffer_size sample)
      else buffer_size sample)"

definition AU_buf_offset :: "('rw, audec) Sound_Sample \<Rightarrow> nat" where
  "AU_buf_offset sample =
     (if encoding (decoder_private sample) = AU_ENC_ULAW_8
      then nat (sint (AU_maxlen0 sample))
      else 0)"

definition AU_maxlen :: "('rw, audec) Sound_Sample \<Rightarrow> 32 word" where
  "AU_maxlen sample =
     (if remaining (decoder_private sample) < AU_maxlen0 sample
      then remaining (decoder_private sample)
      else AU_maxlen0 sample)"

text \<open>
  \<^verbatim>\<open>AU_read\<close> returns \<open>ret\<close>, an \<^verbatim>\<open>int\<close>, through its \<^verbatim>\<open>Uint32\<close> result type. The buffer
  holds \<open>buffer_size\<close> bytes and \<^verbatim>\<open>(int) buffer_size\<close> is not negative; the stream
  stores no more than it was asked for. Outside of that the C code reads or writes
  out of bounds and the model means nothing.
\<close>

definition AU_read ::
  "bool \<Rightarrow> ('rw \<Rightarrow> 32 word \<Rightarrow> 8 word list option \<times> 'rw) \<Rightarrow> ('rw, audec) Sound_Sample
     \<Rightarrow> 32 word \<times> ('rw, audec) Sound_Sample"
where
  "AU_read big_endian SDL_RWread sample =
     (let dec = decoder_private sample;
          off = AU_buf_offset sample;
          maxlen = AU_maxlen sample
      in case SDL_RWread (rw sample) maxlen of
           (res, rw') \<Rightarrow>
             (let ret = rwread_ret res;
                  buffer1 = (case res of None \<Rightarrow> buffer sample
                             | Some bs \<Rightarrow> store_bytes (buffer sample) off bs);
                  sample1 = sample\<lparr> rw := rw', buffer := buffer1 \<rparr>
              in if ret = 0 then
                   (ret, sample1\<lparr> flags := insert SOUND_SAMPLEFLAG_EOF (flags sample) \<rparr>)
                 else if ret = - 1 then
                   (ret, sample1\<lparr> flags := insert SOUND_SAMPLEFLAG_ERROR (flags sample) \<rparr>)
                 else
                   (let sample2 = sample1
                          \<lparr> decoder_private := dec\<lparr> remaining := remaining dec - ret \<rparr>,
                            flags := (if ret <s maxlen
                                      then insert SOUND_SAMPLEFLAG_EAGAIN (flags sample)
                                      else flags sample) \<rparr>
                    in if encoding dec = AU_ENC_ULAW_8 then
                         (push_bit 1 ret,
                          sample2\<lparr> buffer := ulaw_expand big_endian off (nat (sint ret)) 0 buffer1 \<rparr>)
                       else (ret, sample2))))"

text \<open>The sample after \<open>n\<close> calls of \<^verbatim>\<open>AU_read\<close>.\<close>

fun AU_read_iter ::
  "bool \<Rightarrow> ('rw \<Rightarrow> 32 word \<Rightarrow> 8 word list option \<times> 'rw) \<Rightarrow> nat \<Rightarrow> ('rw, audec) Sound_Sample
     \<Rightarrow> ('rw, audec) Sound_Sample"
where
  "AU_read_iter big_endian SDL_RWread 0 sample = sample"
| "AU_read_iter big_endian SDL_RWread (Suc n) sample =
     snd (AU_read big_endian SDL_RWread (AU_read_iter big_endian SDL_RWread n sample))"

text \<open>The number of raw bytes the stream delivers to the \<^verbatim>\<open>AU_read\<close> made on \<open>sample\<close>.\<close>

definition AU_raw_count ::
  "('rw \<Rightarrow> 32 word \<Rightarrow> 8 word list option \<times> 'rw) \<Rightarrow> ('rw, audec) Sound_Sample \<Rightarrow> nat"
where
  "AU_raw_count SDL_RWread sample =
     (case fst (SDL_RWread (rw sample) (AU_maxlen sample)) of
        None \<Rightarrow> 0 | Some bs \<Rightarrow> length bs)"

text \<open>The raw bytes the stream delivers to the first \<open>n\<close> calls of \<^verbatim>\<open>AU_read\<close> together.\<close>

fun AU_raw_total ::
  "bool \<Rightarrow> ('rw \<Rightarrow> 32 word \<Rightarrow> 8 word list option \<times> 'rw) \<Rightarrow> nat \<Rightarrow> ('rw, audec) Sound_Sample
     \<Rightarrow> nat"
where
  "AU_raw_total big_endian SDL_RWread 0 sample = 0"
| "AU_raw_total big_endian SDL_RWread (Suc n) sample =
     AU_raw_total big_endian SDL_RWread n sample
       + AU_raw_count SDL_RWread (AU_read_iter big_endian SDL_RWread n sample)"

section \<open>Streams to run the decoders on\<close>

text \<open>
  A stream over a byte list held in memory: a read delivers as many of the next bytes
  as were asked for and are left; a negative \<open>maxnum\<close> is a failed read.
\<close>

definition mem_RWread :: "8 word list \<Rightarrow> 32 word \<Rightarrow> 8 word list option \<times> 8 word list" where
  "mem_RWread data maxnum =
     (if maxnum <s 0 then (None, data)
      else (Some (take (unat maxnum) data), drop (unat maxnum) data))"

definition mem_RWseek :: "8 word list \<Rightarrow> int \<Rightarrow> 8 word list" where
  "mem_RWseek data offset = data"

text \<open>A stream whose every read fails.\<close>

definition failing_RWread :: "8 word list \<Rightarrow> 32 word \<Rightarrow> 8 word list option \<times> 8 word list" where
  "failing_RWread data maxnum = (None, data)"

text \<open>A stream for \<^verbatim>\<open>SDL_ReadIO\<close> that delivers at most two bytes per call.\<close>

definition short_ReadIO :: "8 word list \<Rightarrow> 64 word \<Rightarrow> 8 word list \<times> 8 word list" where
  "short_ReadIO data n = (take (min 2 (unat n)) data, drop (min 2 (unat n)) data)"

text \<open>A decompressor seek that always succeeds and one read that decodes a fixed count.\<close>

definition seek_ok :: "unit drmp3 \<Rightarrow> 8 word list \<Rightarrow> 64 word \<Rightarrow> bool \<times> unit drmp3 \<times> 8 word list" where
  "seek_ok dr data frame = (True, dr, data)"

text \<open>
  A decompressor with \<open>avail\<close> frames left to decode: a read decodes as many of them
  as were asked for.
\<close>

definition decode_frames ::
  "64 word \<Rightarrow> unit drmp3 \<Rightarrow> 8 word list \<Rightarrow> 8 word list \<Rightarrow> 64 word
     \<Rightarrow> 64 word \<times> unit drmp3 \<times> 8 word list \<times> 8 word list"
where
  "decode_frames avail dr data buf n = (if n < avail then n else avail, dr, data, buf)"

section \<open>What the streams and the decompressor promise\<close>

text \<open>A read never delivers more than it was asked for.\<close>

definition ReadIO_bounded :: "('rw \<Rightarrow> 64 word \<Rightarrow> 8 word list \<times> 'rw) \<Rightarrow> bool" where
  "ReadIO_bounded SDL_ReadIO \<longleftrightarrow> (\<forall>rwops n. length (fst (SDL_ReadIO rwops n)) \<le> unat n)"

definition RWread_bounded :: "('rw \<Rightarrow> 32 word \<Rightarrow> 8 word list option \<times> 'rw) \<Rightarrow> bool" where
  "RWread_bounded SDL_RWread \<longleftrightarrow>
     (\<forall>rw0 maxnum bs. fst (SDL_RWread rw0 maxnum) = Some bs \<longrightarrow> int (length bs) \<le> sint maxnum)"

section \<open>The stream bridge as the specification words it\<close>

text \<open>
  ``Repeatedly invokes the underlying stream's read primitive until either \<open>n\<close> bytes
  have been accumulated or the stream reports zero bytes available; returns the total
  bytes actually placed into the buffer'': \<open>read_until rd rw0 n out rw'\<close> holds when
  reading up to \<open>n\<close> bytes from the stream state \<open>rw0\<close> in this way places the bytes
  \<open>out\<close> and leaves the stream in \<open>rw'\<close>. Sizes are natural numbers here.
\<close>

inductive read_until ::
  "('rw \<Rightarrow> 64 word \<Rightarrow> 8 word list \<times> 'rw) \<Rightarrow> 'rw \<Rightarrow> nat \<Rightarrow> 8 word list \<Rightarrow> 'rw \<Rightarrow> bool"
  for rd :: "'rw \<Rightarrow> 64 word \<Rightarrow> 8 word list \<times> 'rw"
where
  full: "read_until rd rw0 0 [] rw0"
| exhausted: "0 < n \<Longrightarrow> rd rw0 (of_nat n) = ([], rw') \<Longrightarrow> read_until rd rw0 n [] rw'"
| more: "0 < n \<Longrightarrow> rd rw0 (of_nat n) = (chunk, rw1) \<Longrightarrow> chunk \<noteq> [] \<Longrightarrow>
         read_until rd rw1 (n - length chunk) out rw' \<Longrightarrow>
         read_until rd rw0 n (chunk @ out) rw'"

section \<open>Samples to run the decoders on\<close>

text \<open>A sample not yet opened, over a stream of 26 bytes that does not start with ".snd".\<close>

definition unopened_sample :: "(8 word list, unit) Sound_Sample" where
  "unopened_sample =
     \<lparr> rw = replicate 24 0 @ [7, 9], buffer = replicate 16 0, buffer_size = 16,
       decoder_private = (), total_time = 0, flags = {}, actual_format = AUDIO_UNSET,
       actual_channels = 0, actual_rate = 0 \<rparr>"

text \<open>
  An open headerless \<mu>-law sample (\<open>remaining\<close> is \<^verbatim>\<open>(Uint32)-1\<close>) with a buffer of 8
  bytes over a stream of 6 bytes.
\<close>

definition ulaw_sample :: "(8 word list, audec) Sound_Sample" where
  "ulaw_sample =
     \<lparr> rw = [0x80, 0xFF, 0x00, 0x7F, 5, 6], buffer = replicate 8 0, buffer_size = 8,
       decoder_private = \<lparr> remaining = - 1, encoding = 1 \<rparr>, total_time = 0, flags = {},
       actual_format = AUDIO_S16SYS, actual_channels = 1, actual_rate = 8000 \<rparr>"

text \<open>An open \<mu>-law sample with one byte of declared data left, buffer of 8 bytes.\<close>

definition ulaw_last_byte_sample :: "(8 word list, audec) Sound_Sample" where
  "ulaw_last_byte_sample =
     \<lparr> rw = [0x80, 1, 2], buffer = replicate 8 0, buffer_size = 8,
       decoder_private = \<lparr> remaining = 1, encoding = 1 \<rparr>, total_time = 0, flags = {},
       actual_format = AUDIO_S16SYS, actual_channels = 1, actual_rate = 8000 \<rparr>"

text \<open>
  An open 8-bit linear sample whose header declared 10 data bytes, over a stream that
  ends after 5 of them; buffer of 16 bytes.
\<close>

definition truncated_sample :: "(8 word list, audec) Sound_Sample" where
  "truncated_sample =
     \<lparr> rw = [1, 2, 3, 4, 5], buffer = replicate 16 0, buffer_size = 16,
       decoder_private = \<lparr> remaining = 10, encoding = 2 \<rparr>, total_time = 0, flags = {},
       actual_format = AUDIO_S8, actual_channels = 1, actual_rate = 8000 \<rparr>"

text \<open>
  An open 8-bit linear sample whose header declared 10 data bytes, over a stream that
  holds exactly these 10 bytes; buffer of 16 bytes.
\<close>

definition declared_ten_sample :: "(8 word list, audec) Sound_Sample" where
  "declared_ten_sample =
     \<lparr> rw = [1, 2, 3, 4, 5, 6, 7, 8, 9, 10], buffer = replicate 16 0, buffer_size = 16,
       decoder_private = \<lparr> remaining = 10, encoding = 2 \<rparr>, total_time = 0, flags = {},
       actual_format = AUDIO_S8, actual_channels = 1, actual_rate = 8000 \<rparr>"

text \<open>An open stereo MPEG sample at 44100 Hz with a buffer of 64 bytes.\<close>

definition mp3_sample :: "(8 word list, unit drmp3) Sound_Sample" where
  "mp3_sample =
     \<lparr> rw = [], buffer = replicate 64 0, buffer_size = 64,
       decoder_private = \<lparr> channels = 2, sampleRate = 44100, internals = () \<rparr>,
       total_time = - 1, flags = {SOUND_SAMPLEFLAG_CANSEEK}, actual_format = SDL_AUDIO_F32,
       actual_channels = 2, actual_rate = 44100 \<rparr>"

text \<open>The same sample after a read that found only 3 of the 8 frames it asked for.\<close>

definition mp3_sample_at_end :: "(8 word list, unit drmp3) Sound_Sample" where
  "mp3_sample_at_end = mp3_sample\<lparr> flags := {SOUND_SAMPLEFLAG_CANSEEK, SOUND_SAMPLEFLAG_EOF} \<rparr>"

text \<open>An initialisation of the decompressor that finds a stream at the given rate.\<close>

definition init_ok :: "32 word \<Rightarrow> 8 word list \<Rightarrow> unit drmp3 option \<times> 8 word list" where
  "init_ok rate data = (Some \<lparr> channels = 2, sampleRate = rate, internals = () \<rparr>, data)"

text \<open>Frame counts a decompressor may report: one second, and 2147484 seconds, at 44100 Hz.\<close>

definition one_second_frames :: "unit drmp3 \<Rightarrow> 64 word" where
  "one_second_frames dr = 44100"

definition long_stream_frames :: "unit drmp3 \<Rightarrow> 64 word" where
  "long_stream_frames dr = 94704044400"

declare mp3_read_loop.simps [code]
declare ulaw_expand.simps [simp del]

section \<open>Facts about machine integers\<close>


lemma unat_ucast_32_64: "unat (ucast (x :: 32 word) :: 64 word) = unat x"
proof -
  have "unat x < 2 ^ 32" using unsigned_less [of x] by simp
  then show ?thesis by (simp add: unsigned_ucast_eq take_bit_nat_eq_self)
qed

lemma unat_ucast_64_32:
  assumes "unat (x :: 64 word) < 2 ^ 32"
  shows "unat (ucast x :: 32 word) = unat x"
proof -
  have "unat (ucast x :: 32 word) = take_bit LENGTH(32) (unat x)"
    by (rule unsigned_ucast_eq)
  also have "\<dots> = take_bit 32 (unat x)" by simp
  also have "\<dots> = unat x" using assms by (rule take_bit_nat_eq_self)
  finally show ?thesis .
qed

lemma sint_small_32:
  assumes "unat (w :: 32 word) < 2 ^ 31"
  shows "sint w = int (unat w)"
proof -
  have "int (unat w) < 2 ^ 31" using assms by (metis of_nat_less_numeral_power_cancel_iff)
  then have u: "uint w < 2 ^ 31" by (simp only: of_nat_unat)
  have z: "- (2 ^ 31) \<le> uint w" by (rule order_trans [of _ 0]) simp_all
  have "sint w = signed_take_bit (LENGTH(32) - Suc 0) (uint w)" by (rule sint_uint)
  also have "LENGTH(32) - Suc 0 = 31" by simp
  also have "signed_take_bit 31 (uint w) = uint w" using z u by (rule signed_take_bit_int_eq_self)
  finally show ?thesis by (simp only: of_nat_unat)
qed

lemma unat_scast_small_32_64:
  assumes "unat (w :: 32 word) < 2 ^ 31"
  shows "unat (scast w :: 64 word) = unat w"
proof -
  have "(scast w :: 64 word) = word_of_int (sint w)" by (rule scast_eq)
  also have "\<dots> = word_of_int (int (unat w))" using assms by (simp only: sint_small_32)
  also have "\<dots> = of_nat (unat w)" by (simp only: word_of_int_nat of_nat_0_le_iff nat_int)
  finally have e: "(scast w :: 64 word) = of_nat (unat w)" .
  have "(2::nat) ^ 31 < 2 ^ 64" by simp
  with assms have lt: "unat w < 2 ^ 64" by (rule less_trans)
  have "unat (of_nat (unat w) :: 64 word) = unat w mod 2 ^ LENGTH(64)" by (rule unat_of_nat)
  also have "\<dots> = unat w" using lt by simp
  finally show ?thesis by (simp only: e)
qed

section \<open>The MPEG decoder: duration, read, flags\<close>

lemma MP3_total_time_exact:
  fixes frames :: "64 word" and rate :: "32 word"
  assumes f: "frames \<noteq> 0" and r: "rate \<noteq> 0"
    and fit: "(unat frames div unat rate) * 1000 + ((unat frames mod unat rate) * 1000) div unat rate < 2 ^ 31"
  shows "\<exists>t. MP3_total_time frames rate = Some t \<and>
          sint t = int ((unat frames div unat rate) * 1000 + ((unat frames mod unat rate) * 1000) div unat rate)"
proof -
  define r64 where "r64 = (ucast rate :: 64 word)"
  define D1 where "D1 = (unat frames div unat rate) * 1000"
  define D2 where "D2 = ((unat frames mod unat rate) * 1000) div unat rate"
  define a where "a = (frames div r64) * 1000"
  define t1 where "t1 = (ucast a :: 32 word)"
  define g where "g = ((frames mod r64) * 1000) div r64"
  define t2 where "t2 = (ucast ((scast t1 :: 64 word) + g) :: 32 word)"
  have p31: "(2::nat) ^ 31 < 2 ^ 32" and p3164: "(2::nat) ^ 31 < 2 ^ 64" by simp_all
  have D: "D1 + D2 < 2 ^ 31" using fit by (simp only: D1_def D2_def)
  then have D1: "D1 < 2 ^ 31" and D2: "D2 < 2 ^ 31" by arith+
  have ur: "unat r64 = unat rate" by (simp only: r64_def unat_ucast_32_64)
  have rpos: "0 < unat rate" using r by (simp add: unat_gt_0)
  have q: "unat (frames div r64) = unat frames div unat rate" by (simp only: unat_div ur)
  have "unat (frames div r64) * unat (1000 :: 64 word) < 2 ^ LENGTH(64)"
    using D1 p3164 by (simp add: q D1_def)
  then have ua: "unat a = D1"
    by (simp only: a_def D1_def unat_mult_lem [THEN iffD1] q) simp
  have a32: "unat a < 2 ^ 32" unfolding ua using D1 p31 by (rule less_trans)
  have ut1: "unat t1 = D1" unfolding t1_def by (simp only: unat_ucast_64_32 [OF a32] ua)
  have t131: "unat t1 < 2 ^ 31" unfolding ut1 by (rule D1)
  have us: "unat (scast t1 :: 64 word) = D1"
    by (simp only: unat_scast_small_32_64 [OF t131] ut1)
  have m: "unat (frames mod r64) = unat frames mod unat rate" by (simp only: unat_mod ur)
  have "unat frames mod unat rate < unat rate" using rpos by simp
  moreover have "unat rate < 2 ^ 32" using unsigned_less [of rate] by simp
  ultimately have "unat frames mod unat rate < 2 ^ 32" by (rule less_trans)
  then have "(unat frames mod unat rate) * 1000 < 2 ^ 32 * 1000" by simp
  also have "\<dots> < (2::nat) ^ 64" by simp
  finally have "unat (frames mod r64) * unat (1000 :: 64 word) < 2 ^ LENGTH(64)"
    by (simp add: m)
  then have "unat ((frames mod r64) * 1000) = (unat frames mod unat rate) * 1000"
    by (simp only: unat_mult_lem [THEN iffD1] m) simp
  then have ug: "unat g = D2" by (simp only: g_def D2_def unat_div ur)
  have "unat (scast t1 :: 64 word) + unat g < 2 ^ LENGTH(64)"
    using D p3164 by (simp add: us ug)
  then have usum: "unat ((scast t1 :: 64 word) + g) = D1 + D2"
    by (simp only: unat_add_lem [THEN iffD1] us ug)
  have s32: "unat ((scast t1 :: 64 word) + g) < 2 ^ 32" unfolding usum using D p31 by (rule less_trans)
  have ut2: "unat t2 = D1 + D2" unfolding t2_def by (simp only: unat_ucast_64_32 [OF s32] usum)
  have t231: "unat t2 < 2 ^ 31" unfolding ut2 by (rule D)
  have "sint t2 = int (D1 + D2)" by (simp only: sint_small_32 [OF t231] ut2)
  moreover have "MP3_total_time frames rate = Some t2"
    using f r by (simp add: MP3_total_time_def Let_def t2_def g_def t1_def a_def r64_def)
  ultimately show ?thesis by (simp only: D1_def D2_def) blast
qed




lemma unat_ucast_8_32: "unat (ucast (x :: 8 word) :: 32 word) = unat x"
proof -
  have "unat x < 2 ^ 8" using unsigned_less [of x] by simp
  then have "unat x < 2 ^ 32" by simp
  then show ?thesis by (simp add: unsigned_ucast_eq take_bit_nat_eq_self)
qed


lemma MP3_frames_to_read_unat:
  "unat (MP3_frames_to_read sample) =
     (unat (buffer_size sample) div unat (actual_channels sample)) div 4"
proof -
  have "unat (MP3_frames_to_read sample) =
          unat (ucast (buffer_size sample div (ucast (actual_channels sample) :: 32 word)) :: 64 word)
            div unat (4 :: 64 word)"
    by (simp only: MP3_frames_to_read_def unat_div)
  also have "\<dots> = (unat (buffer_size sample) div unat (actual_channels sample)) div 4"
    by (simp only: unat_ucast_32_64 unat_div unat_ucast_8_32) simp
  finally show ?thesis .
qed

lemma MP3_bytes_fit:
  fixes rc :: "64 word"
  assumes le: "rc \<le> MP3_frames_to_read sample"
  shows "unat rc * unat (actual_channels sample) * 4 \<le> unat (buffer_size sample)"
proof -
  define c where "c = unat (actual_channels sample)"
  define b where "b = unat (buffer_size sample)"
  have "unat rc \<le> (b div c) div 4"
    using le by (simp only: word_le_nat_alt MP3_frames_to_read_unat b_def c_def)
  then have "unat rc * 4 \<le> b div c" by arith
  then have "unat rc * 4 * c \<le> (b div c) * c" by (rule mult_le_mono1)
  also have "\<dots> \<le> b" by simp
  finally show ?thesis by (simp only: b_def c_def mult.assoc mult.commute [of 4])
qed

lemma MP3_read_result:
  fixes sample :: "('rw, 'd drmp3) Sound_Sample"
  assumes ch: "actual_channels sample \<noteq> 0"
    and call: "read_frames (decoder_private sample) (rw sample) (buffer sample)
                 (MP3_frames_to_read sample) = (rc, dr', rw', buffer')"
  shows "MP3_read read_frames sample =
           Some (ucast (rc * ucast (ucast (actual_channels sample) :: 32 word) * 4),
                 sample\<lparr> rw := rw', buffer := buffer', decoder_private := dr',
                         flags := (if rc < MP3_frames_to_read sample
                                   then insert SOUND_SAMPLEFLAG_EOF (flags sample)
                                   else flags sample) \<rparr>)"
proof -
  have "unat (ucast (actual_channels sample) :: 32 word) \<noteq> 0"
    using ch by (simp only: unat_ucast_8_32) (simp add: unat_eq_zero)
  then have "(ucast (actual_channels sample) :: 32 word) \<noteq> 0" by (simp add: unat_eq_zero)
  then show ?thesis by (simp add: MP3_read_def Let_def call)
qed

lemma MP3_bytes_unat:
  fixes rc :: "64 word"
  assumes le: "rc \<le> MP3_frames_to_read sample"
  shows "unat (ucast (rc * ucast (ucast (actual_channels sample) :: 32 word) * 4) :: 32 word) =
           unat rc * unat (actual_channels sample) * 4"
proof -
  define c where "c = unat (actual_channels sample)"
  define c64 where "c64 = (ucast (ucast (actual_channels sample) :: 32 word) :: 64 word)"
  have uc: "unat c64 = c" by (simp only: c64_def c_def unat_ucast_32_64 unat_ucast_8_32)
  have fit: "unat rc * c * 4 \<le> unat (buffer_size sample)"
    using MP3_bytes_fit [OF le] by (simp only: c_def)
  have b32: "unat (buffer_size sample) < 2 ^ 32" using unsigned_less [of "buffer_size sample"] by simp
  have p: "(2::nat) ^ 32 < 2 ^ 64" by simp
  have lt32: "unat rc * c * 4 < 2 ^ 32" using fit b32 by (rule le_less_trans)
  then have lt64: "unat rc * c * 4 < 2 ^ 64" using p by (rule less_trans)
  have "unat rc * c \<le> unat rc * c * 4" by simp
  then have "unat rc * c < 2 ^ 64" using lt64 by (rule le_less_trans)
  then have "unat rc * unat c64 < 2 ^ LENGTH(64)" by (simp add: uc)
  then have m1: "unat (rc * c64) = unat rc * c" by (simp only: unat_mult_lem [THEN iffD1] uc)
  have "unat (rc * c64) * unat (4 :: 64 word) < 2 ^ LENGTH(64)" using lt64 by (simp add: m1)
  then have m2: "unat (rc * c64 * 4) = unat rc * c * 4"
    by (simp only: unat_mult_lem [THEN iffD1] m1) simp
  have "unat (rc * c64 * 4) < 2 ^ 32" unfolding m2 by (rule lt32)
  then have "unat (ucast (rc * c64 * 4) :: 32 word) = unat rc * c * 4"
    by (simp only: unat_ucast_64_32 m2)
  then show ?thesis by (simp only: c64_def c_def)
qed

lemma MP3_rewind_flags: "flags (snd (MP3_rewind sk sample)) = flags sample"
  by (simp add: MP3_rewind_def split: prod.splits)

lemma MP3_seek_flags: "flags (snd (MP3_seek sk cv sample ms)) = flags sample"
  by (simp add: MP3_seek_def split: prod.splits)

lemma MP3_read_flags: "MP3_read rd sample = Some (n, sample') \<Longrightarrow> flags sample \<subseteq> flags sample'"
  by (auto simp: MP3_read_def Let_def split: prod.splits if_splits)

lemma AU_read_flags: "flags sample \<subseteq> flags (snd (AU_read be rd sample))"
  by (auto simp: AU_read_def Let_def split: prod.splits if_splits)

lemma MP3_open_Inr:
  assumes "drmp3_init (rw sample) = (Some dr, rw')"
    and "MP3_total_time (drmp3_get_pcm_frame_count dr) (sampleRate dr) = Some t"
  shows "\<exists>s. MP3_open True drmp3_init drmp3_get_pcm_frame_count sample = Inr s \<and> total_time s = t"
  using assms by (simp add: MP3_open_def)

text \<open>
  C5 (amended). \<^verbatim>\<open>MP3_open\<close> succeeds once the decompressor is initialised (and the
  rate is not zero unless the frame count is). If the decompressor reports zero frames
  the total time is \<open>-1\<close>. Otherwise, whenever
  \<open>(frames div rate) * 1000 + ((frames mod rate) * 1000) div rate\<close> is below \<open>2^31\<close>, the
  total time is exactly that number. Nothing is said of larger values.
\<close>

theorem MP3_open_total_time:
  fixes frames :: "64 word"
  assumes init: "drmp3_init (rw sample) = (Some dr, rw')"
    and frames: "frames = drmp3_get_pcm_frame_count dr"
    and rate: "frames = 0 \<or> sampleRate dr \<noteq> 0"
  shows "\<exists>s. MP3_open True drmp3_init drmp3_get_pcm_frame_count sample = Inr s \<and>
           (frames = 0 \<longrightarrow> sint (total_time s) = - 1) \<and>
           (frames \<noteq> 0 \<and>
            (unat frames div unat (sampleRate dr)) * 1000
              + ((unat frames mod unat (sampleRate dr)) * 1000) div unat (sampleRate dr) < 2 ^ 31
            \<longrightarrow> sint (total_time s) =
                  int ((unat frames div unat (sampleRate dr)) * 1000
                       + ((unat frames mod unat (sampleRate dr)) * 1000) div unat (sampleRate dr)))"
proof (cases "frames = 0")
  case True
  then have "MP3_total_time (drmp3_get_pcm_frame_count dr) (sampleRate dr) = Some (- 1)"
    by (simp add: frames MP3_total_time_def)
  with init have "\<exists>s. MP3_open True drmp3_init drmp3_get_pcm_frame_count sample = Inr s \<and>
                     total_time s = - 1"
    by (rule MP3_open_Inr)
  with True show ?thesis by auto
next
  case False
  with rate have r: "sampleRate dr \<noteq> 0" by simp
  show ?thesis
  proof (cases "(unat frames div unat (sampleRate dr)) * 1000
              + ((unat frames mod unat (sampleRate dr)) * 1000) div unat (sampleRate dr) < 2 ^ 31")
    case fit: True
    from MP3_total_time_exact [OF False r fit] obtain t where
      t: "MP3_total_time frames (sampleRate dr) = Some t"
      and st: "sint t = int ((unat frames div unat (sampleRate dr)) * 1000
                       + ((unat frames mod unat (sampleRate dr)) * 1000) div unat (sampleRate dr))"
      by blast
    from t have "MP3_total_time (drmp3_get_pcm_frame_count dr) (sampleRate dr) = Some t"
      by (simp only: frames)
    with init have "\<exists>s. MP3_open True drmp3_init drmp3_get_pcm_frame_count sample = Inr s \<and>
                       total_time s = t"
      by (rule MP3_open_Inr)
    with False st show ?thesis by auto
  next
    case nofit: False
    have "\<exists>t. MP3_total_time (drmp3_get_pcm_frame_count dr) (sampleRate dr) = Some t"
      using False r by (simp add: frames [symmetric] MP3_total_time_def Let_def)
    then obtain t where "MP3_total_time (drmp3_get_pcm_frame_count dr) (sampleRate dr) = Some t" ..
    with init have "\<exists>s. MP3_open True drmp3_init drmp3_get_pcm_frame_count sample = Inr s \<and>
                       total_time s = t"
      by (rule MP3_open_Inr)
    with False nofit show ?thesis by auto
  qed
qed

text \<open>The theorem at 44100 frames and 44100 Hz: the total time is exactly 1000 ms.\<close>

theorem MP3_open_total_time_witness:
  "sint (total_time (projr (MP3_open True (init_ok 44100) one_second_frames unopened_sample))) = 1000"
proof -
  have i: "init_ok 44100 (rw unopened_sample) =
             (Some \<lparr> channels = 2, sampleRate = 44100, internals = () \<rparr>, rw unopened_sample)"
    by (simp add: init_ok_def)
  have f: "(44100 :: 64 word) = one_second_frames \<lparr> channels = 2, sampleRate = 44100, internals = () \<rparr>"
    by (simp add: one_second_frames_def)
  have r: "(44100 :: 64 word) = 0 \<or>
           sampleRate \<lparr> channels = 2, sampleRate = (44100 :: 32 word), internals = () \<rparr> \<noteq> 0"
    by simp
  from MP3_open_total_time
         [where drmp3_init = "init_ok 44100" and sample = unopened_sample
            and drmp3_get_pcm_frame_count = one_second_frames and frames = 44100
            and dr = "\<lparr> channels = 2, sampleRate = 44100, internals = () \<rparr>", OF i f r]
  show ?thesis by auto
qed

text \<open>
  C5 as stated fails for a stream of 94704044400 frames at 44100 Hz (2147484 seconds):
  the formula gives 2147484000, the total time stored is \<open>-2147483296\<close>.
\<close>

theorem MP3_open_total_time_overflow:
  "sint (total_time (projr (MP3_open True (init_ok 44100) long_stream_frames unopened_sample)))
     = - 2147483296
   \<and> (94704044400 div 44100) * 1000 + ((94704044400 mod 44100) * 1000) div 44100
     = (2147484000 :: int)"
  by code_simp


text \<open>
  C2 (amended). No decoder operation on an open sample clears a flag: \<^verbatim>\<open>MP3_rewind\<close> and
  \<^verbatim>\<open>MP3_seek\<close> leave the flags exactly as they were, whether or not the decompressor's
  seek succeeds (so END_OF_STREAM stays set after a successful rewind or seek), and
  \<^verbatim>\<open>MP3_read\<close> and \<^verbatim>\<open>AU_read\<close> only add flags.
\<close>

theorem decoder_operations_keep_flags:
  "flags (snd (MP3_rewind sk sample)) = flags sample
   \<and> flags (snd (MP3_seek sk cv sample ms)) = flags sample
   \<and> (\<forall>n sample'. MP3_read rd sample = Some (n, sample') \<longrightarrow> flags sample \<subseteq> flags sample')
   \<and> flags au \<subseteq> flags (snd (AU_read be ard au))"
  using MP3_read_flags [of rd sample]
  by (simp add: MP3_rewind_flags MP3_seek_flags AU_read_flags)

text \<open>
  The theorem on the stereo sample: a read that comes up short sets END_OF_STREAM and keeps
  CAN_SEEK, and a rewind whose seek succeeds keeps both.
\<close>

theorem decoder_operations_keep_flags_witness:
  "MP3_read (decode_frames 3) mp3_sample = Some (24, mp3_sample_at_end)
   \<and> flags mp3_sample \<subseteq> flags mp3_sample_at_end
   \<and> flags (snd (MP3_rewind seek_ok mp3_sample_at_end))
       = {SOUND_SAMPLEFLAG_CANSEEK, SOUND_SAMPLEFLAG_EOF}"
proof -
  have r: "MP3_read (decode_frames 3) mp3_sample = Some (24, mp3_sample_at_end)"
    by code_simp
  have f: "flags mp3_sample_at_end = {SOUND_SAMPLEFLAG_CANSEEK, SOUND_SAMPLEFLAG_EOF}"
    by (simp add: mp3_sample_at_end_def)
  from decoder_operations_keep_flags
         [of seek_ok mp3_sample_at_end "\<lambda>rate ms. 0" 0 "decode_frames 3" ulaw_sample False
            mem_RWread]
  have 1: "flags (snd (MP3_rewind seek_ok mp3_sample_at_end)) = flags mp3_sample_at_end"
    by blast
  from decoder_operations_keep_flags
         [of seek_ok mp3_sample "\<lambda>rate ms. 0" 0 "decode_frames 3" ulaw_sample False
            mem_RWread] r
  have 2: "flags mp3_sample \<subseteq> flags mp3_sample_at_end"
    by blast
  from r 1 2 f show ?thesis by simp
qed

text \<open>
  C2 as stated fails: after a read has set END_OF_STREAM, \<^verbatim>\<open>MP3_rewind\<close> returns success
  and END_OF_STREAM is still set.
\<close>

theorem MP3_rewind_leaves_EOF_set:
  "MP3_read (decode_frames 3) mp3_sample = Some (24, mp3_sample_at_end)
   \<and> SOUND_SAMPLEFLAG_EOF \<notin> flags mp3_sample
   \<and> SOUND_SAMPLEFLAG_EOF \<in> flags mp3_sample_at_end
   \<and> fst (MP3_rewind seek_ok mp3_sample_at_end)
   \<and> SOUND_SAMPLEFLAG_EOF \<in> flags (snd (MP3_rewind seek_ok mp3_sample_at_end))"
  by code_simp

text \<open>
  C7. With a nonzero channel count and a decompressor that returns no more frames than
  it was asked for, \<^verbatim>\<open>MP3_read\<close> asks the decompressor for exactly
  \<open>(buffer_size div channels) div 4\<close> frames, returns \<open>rc * channels * 4\<close> (no wrap-around)
  for the \<open>rc\<close> frames it got, and adds END_OF_STREAM to the flags exactly when \<open>rc\<close> is
  less than the number requested.
\<close>

theorem MP3_read_frames_and_bytes:
  fixes sample :: "('rw, 'd drmp3) Sound_Sample"
  assumes ch: "actual_channels sample \<noteq> 0"
    and call: "read_frames (decoder_private sample) (rw sample) (buffer sample)
                 (MP3_frames_to_read sample) = (rc, dr', rw', buffer')"
    and le: "rc \<le> MP3_frames_to_read sample"
  shows "unat (MP3_frames_to_read sample) =
           (unat (buffer_size sample) div unat (actual_channels sample)) div 4
         \<and> (\<exists>ret sample'.
               MP3_read read_frames sample = Some (ret, sample')
               \<and> unat ret = unat rc * unat (actual_channels sample) * 4
               \<and> flags sample' =
                   (if rc < MP3_frames_to_read sample
                    then insert SOUND_SAMPLEFLAG_EOF (flags sample) else flags sample)
               \<and> (SOUND_SAMPLEFLAG_EOF \<in> flags sample' \<longleftrightarrow>
                    SOUND_SAMPLEFLAG_EOF \<in> flags sample \<or> rc < MP3_frames_to_read sample))"
proof -
  note res = MP3_read_result [where read_frames = read_frames,
                               OF ch call]
  have "unat (ucast (rc * ucast (ucast (actual_channels sample) :: 32 word) * 4) :: 32 word) =
          unat rc * unat (actual_channels sample) * 4"
    using le by (rule MP3_bytes_unat)
  with res show ?thesis
    by (auto simp: MP3_frames_to_read_unat)
qed

text \<open>
  The theorem on the stereo sample with a 64-byte buffer: 8 frames are requested; the
  decompressor has 3, so 24 bytes are reported and END_OF_STREAM is set.
\<close>

theorem MP3_read_frames_and_bytes_witness:
  "MP3_frames_to_read mp3_sample = 8
   \<and> (\<exists>ret sample'. MP3_read (decode_frames 3) mp3_sample = Some (ret, sample')
         \<and> unat ret = 24 \<and> SOUND_SAMPLEFLAG_EOF \<in> flags sample')"
proof -
  have f: "MP3_frames_to_read mp3_sample = 8" by code_simp
  have ch: "actual_channels mp3_sample \<noteq> 0" by (simp add: mp3_sample_def)
  have call: "decode_frames 3 (decoder_private mp3_sample) (rw mp3_sample) (buffer mp3_sample)
                (MP3_frames_to_read mp3_sample)
              = (3, decoder_private mp3_sample, rw mp3_sample, buffer mp3_sample)"
    by (simp add: f decode_frames_def)
  have le: "(3 :: 64 word) \<le> MP3_frames_to_read mp3_sample" by (simp add: f)
  have c: "unat (actual_channels mp3_sample) = 2" by (simp add: mp3_sample_def)
  from MP3_read_frames_and_bytes [where read_frames = "decode_frames 3",
                                  OF ch call le] f c
  show ?thesis by auto
qed

text \<open>
  C1 (the code accepts the stream). \<^verbatim>\<open>AU_open\<close> on a stream of 26 bytes that does not
  start with the magic value, with the extension hint "wav": it returns success, with
  the flags cleared, the 24 header bytes consumed and the decoder state left as
  \<^verbatim>\<open>malloc\<close> returned it (here \<open>remaining = 7\<close>, \<open>encoding = 99\<close>).
\<close>

theorem AU_open_accepts_unrecognised_stream:
  "AU_open (Some \<lparr> remaining = 7, encoding = 99 \<rparr>) mem_RWread mem_RWseek unopened_sample ''wav''
     = Inr \<lparr> rw = [7, 9], buffer = replicate 16 0, buffer_size = 16,
             decoder_private = \<lparr> remaining = 7, encoding = 99 \<rparr>, total_time = 0, flags = {},
             actual_format = AUDIO_UNSET, actual_channels = 0, actual_rate = 0 \<rparr>"
  by code_simp

text \<open>
  C9 (the code reports more than the capacity). \<^verbatim>\<open>AU_read\<close> on a sample with a buffer of
  8 bytes whose stream read fails: the \<open>-1\<close> of the stream is returned through the
  \<^verbatim>\<open>Uint32\<close> result, so the byte count reported is \<open>0xFFFFFFFF\<close>, above the capacity.
\<close>

theorem AU_read_error_reports_more_than_capacity:
  "fst (AU_read False failing_RWread ulaw_sample) = 0xFFFFFFFF
   \<and> buffer_size ulaw_sample = 8
   \<and> buffer_size ulaw_sample < fst (AU_read False failing_RWread ulaw_sample)
   \<and> SOUND_SAMPLEFLAG_ERROR \<in> flags (snd (AU_read False failing_RWread ulaw_sample))"
  by code_simp

section \<open>The stream bridge\<close>


lemma of_nat_len_64:
  assumes "k \<le> unat (n :: 64 word)"
  shows "unat (of_nat k :: 64 word) = k"
proof -
  have "unat n < 2 ^ LENGTH(64)" by (rule unsigned_less)
  with assms have "k < 2 ^ LENGTH(64)" by (rule le_less_trans)
  then show ?thesis by (simp only: unat_of_nat mod_less)
qed

lemma mp3_read_loop_correct:
  assumes bounded: "ReadIO_bounded rd"
  shows "\<exists>out' rw'. mp3_read_loop rd rw0 acc n ret = Some (ret + of_nat (length out'), acc @ out', rw')
            \<and> read_until rd rw0 (unat n) out' rw' \<and> length out' \<le> unat n"
proof (induction "unat n" arbitrary: n rw0 acc ret rule: less_induct)
  case less
  show ?case
  proof (cases "n = 0")
    case True
    have "mp3_read_loop rd rw0 acc n ret = Some (ret, acc, rw0)"
      using True by (subst mp3_read_loop.simps) simp
    moreover have "read_until rd rw0 (unat n) [] rw0"
      using True by (simp add: read_until.full)
    ultimately show ?thesis by force
  next
    case False
    obtain chunk rw1 where rd: "rd rw0 n = (chunk, rw1)" by (cases "rd rw0 n")
    have len: "length chunk \<le> unat n"
      using bounded rd by (metis ReadIO_bounded_def fst_conv)
    have ulen: "unat (of_nat (length chunk) :: 64 word) = length chunk"
      using len by (rule of_nat_len_64)
    have npos: "0 < unat n" using False by (simp add: unat_gt_0)
    have nn: "of_nat (unat n) = n" by simp
    show ?thesis
    proof (cases "chunk = []")
      case True
      have "mp3_read_loop rd rw0 acc n ret = Some (ret, acc, rw1)"
        using False True rd by (subst mp3_read_loop.simps) simp
      moreover have "read_until rd rw0 (unat n) [] rw1"
        using npos rd True by (intro read_until.exhausted) (simp_all add: nn)
      ultimately show ?thesis by force
    next
      case ne: False
      define rc where "rc = (of_nat (length chunk) :: 64 word)"
      have urc: "unat rc = length chunk" by (simp only: rc_def ulen)
      have rc0: "rc \<noteq> 0"
      proof
        assume "rc = 0"
        then have "unat rc = 0" by simp
        with urc ne show False by simp
      qed
      have rcle: "rc \<le> n" using len by (simp only: word_le_nat_alt urc)
      have usub: "unat (n - rc) = unat n - length chunk"
        using rcle by (simp only: unat_sub urc)
      have lpos: "0 < length chunk" using ne by simp
      have smaller: "unat (n - rc) < unat n" using usub npos lpos len by arith
      from less [OF smaller, of rw1 "acc @ chunk" "ret + rc"]
      obtain out'' rw' where
        run: "mp3_read_loop rd rw1 (acc @ chunk) (n - rc) (ret + rc)
                = Some (ret + rc + of_nat (length out''), (acc @ chunk) @ out'', rw')"
        and spec: "read_until rd rw1 (unat (n - rc)) out'' rw'"
        and bound: "length out'' \<le> unat (n - rc)"
        by blast
      have step: "mp3_read_loop rd rw0 acc n ret
                    = mp3_read_loop rd rw1 (acc @ chunk) (n - rc) (ret + rc)"
        using False rd rc0 by (subst mp3_read_loop.simps) (simp add: rc_def Let_def)
      have sum: "ret + rc + of_nat (length out'') = ret + of_nat (length (chunk @ out''))"
        by (simp add: rc_def)
      have 1: "mp3_read_loop rd rw0 acc n ret
                 = Some (ret + of_nat (length (chunk @ out'')), acc @ (chunk @ out''), rw')"
        by (simp only: step run sum append_assoc)
      have rd': "rd rw0 (of_nat (unat n)) = (chunk, rw1)" using rd by (simp only: nn)
      have spec': "read_until rd rw1 (unat n - length chunk) out'' rw'"
        using spec by (simp only: usub)
      have 2: "read_until rd rw0 (unat n) (chunk @ out'') rw'"
        using npos rd' ne spec' by (rule read_until.more)
      have 3: "length (chunk @ out'') \<le> unat n"
        using bound usub len by simp
      from 1 2 3 show ?thesis by blast
    qed
  qed
qed

lemma short_ReadIO_bounded: "ReadIO_bounded short_ReadIO"
  by (simp add: ReadIO_bounded_def short_ReadIO_def min_def)

text \<open>
  C8. Over a stream whose read never delivers more than it was asked for, the bridge's
  read callback returns (the loop ends), and what it returns is what ``read until \<open>n\<close>
  bytes are accumulated or the stream delivers zero bytes'' gives: the bytes placed in the
  output, their total number as the return value (at most \<open>n\<close>), and the stream as the last
  read left it. A short read that is not empty only continues the loop.
\<close>

theorem mp3_read_reads_until_full_or_exhausted:
  assumes "ReadIO_bounded rd"
  shows "\<exists>out rw'. mp3_read rd rw0 n = Some (of_nat (length out), out, rw')
           \<and> read_until rd rw0 (unat n) out rw' \<and> length out \<le> unat n"
  using mp3_read_loop_correct [OF assms, of rw0 "[]" n 0] by (simp add: mp3_read_def)

text \<open>
  The theorem on a stream of five bytes that delivers two bytes per read: a request for 9
  bytes takes the reads of 2, 2, 1 and 0 bytes and returns 5; a request for 4 bytes takes
  two reads and returns 4.
\<close>

theorem mp3_read_reads_until_full_or_exhausted_witness:
  "ReadIO_bounded short_ReadIO
   \<and> mp3_read short_ReadIO [1, 2, 3, 4, 5] 9 = Some (5, [1, 2, 3, 4, 5], [])
   \<and> read_until short_ReadIO [1, 2, 3, 4, 5] 9 [1, 2, 3, 4, 5] []
   \<and> mp3_read short_ReadIO [1, 2, 3, 4, 5] 4 = Some (4, [1, 2, 3, 4], [5])
   \<and> read_until short_ReadIO [1, 2, 3, 4, 5] 4 [1, 2, 3, 4] [5]"
proof -
  have a: "mp3_read short_ReadIO [1, 2, 3, 4, 5] 9 = Some (5, [1, 2, 3, 4, 5], [])"
    by code_simp
  have b: "mp3_read short_ReadIO [1, 2, 3, 4, 5] 4 = Some (4, [1, 2, 3, 4], [5])"
    by code_simp
  from mp3_read_reads_until_full_or_exhausted [OF short_ReadIO_bounded, of "[1, 2, 3, 4, 5]" 9] a
  have c: "read_until short_ReadIO [1, 2, 3, 4, 5] 9 [1, 2, 3, 4, 5] []" by auto
  from mp3_read_reads_until_full_or_exhausted [OF short_ReadIO_bounded, of "[1, 2, 3, 4, 5]" 4] b
  have d: "read_until short_ReadIO [1, 2, 3, 4, 5] 4 [1, 2, 3, 4] [5]" by auto
  from short_ReadIO_bounded a b c d show ?thesis by simp
qed

section \<open>The container decoder: reads and the remaining byte count\<close>


lemma sint_nonneg_uint:
  assumes "0 \<le> sint (w :: 32 word)"
  shows "sint w = uint w"
proof -
  have "sint w < 2 ^ (LENGTH(32) - 1)" by (rule sint_lt)
  then have "sint w < 2 ^ 31" by simp
  moreover have "(2 :: int) ^ 31 < 2 ^ 32" by simp
  ultimately have lt: "sint w < 2 ^ 32" by (rule less_trans)
  have "uint w = take_bit LENGTH(32) (sint w)" by (rule uint_sint)
  also have "\<dots> = take_bit 32 (sint w)" by simp
  also have "\<dots> = sint w" using assms lt by (simp only: take_bit_int_eq_self)
  finally show ?thesis by simp
qed

lemma bounded_length:
  assumes "int k \<le> sint (m :: 32 word)"
  shows "k \<le> unat m" and "unat (of_nat k :: 32 word) = k" and "sint (of_nat k :: 32 word) = int k"
proof -
  have "0 \<le> int k" by simp
  then have nn: "0 \<le> sint m" using assms by (rule order_trans)
  have "sint m = uint m" using nn by (rule sint_nonneg_uint)
  also have "\<dots> = int (unat m)" by (rule uint_nat)
  finally have sm: "sint m = int (unat m)" .
  have "int k \<le> int (unat m)" using assms unfolding sm .
  then show "k \<le> unat m" by (simp only: of_nat_le_iff)
  have "sint m < 2 ^ (LENGTH(32) - 1)" by (rule sint_lt)
  then have "sint m < 2 ^ 31" by simp
  with assms have "int k < 2 ^ 31" by (rule le_less_trans)
  then have k31: "k < 2 ^ 31" by (simp only: of_nat_less_numeral_power_cancel_iff)
  have "(2 :: nat) ^ 31 < 2 ^ 32" by simp
  with k31 have "k < 2 ^ 32" by (rule less_trans)
  then have "k mod 2 ^ LENGTH(32) = k" by simp
  then show u: "unat (of_nat k :: 32 word) = k" by (simp only: unat_of_nat)
  have "unat (of_nat k :: 32 word) < 2 ^ 31" unfolding u by (rule k31)
  then have "sint (of_nat k :: 32 word) = int (unat (of_nat k :: 32 word))" by (rule sint_small_32)
  then show "sint (of_nat k :: 32 word) = int k" by (simp only: u)
qed

lemma AU_maxlen_le_remaining: "AU_maxlen s \<le> remaining (decoder_private s)"
  by (simp add: AU_maxlen_def not_less)

lemma AU_read_None:
  assumes "rd (rw s) (AU_maxlen s) = (None, rw')"
  shows "AU_read be rd s = (- 1, s\<lparr> rw := rw', flags := insert SOUND_SAMPLEFLAG_ERROR (flags s) \<rparr>)"
  using assms by (simp add: AU_read_def Let_def rwread_ret_def)

lemma AU_read_Nil:
  assumes "rd (rw s) (AU_maxlen s) = (Some [], rw')"
  shows "AU_read be rd s =
           (0, s\<lparr> rw := rw', buffer := store_bytes (buffer s) (AU_buf_offset s) [],
                   flags := insert SOUND_SAMPLEFLAG_EOF (flags s) \<rparr>)"
  using assms by (simp add: AU_read_def Let_def rwread_ret_def)

lemma AU_read_data:
  assumes rd: "rd (rw s) (AU_maxlen s) = (Some bs, rw')"
    and ne: "bs \<noteq> []"
    and le: "int (length bs) \<le> sint (AU_maxlen s)"
  shows "fst (AU_read be rd s) =
           (if encoding (decoder_private s) = AU_ENC_ULAW_8
            then push_bit 1 (of_nat (length bs)) else of_nat (length bs))"
    and "remaining (decoder_private (snd (AU_read be rd s))) =
           remaining (decoder_private s) - of_nat (length bs)"
    and "encoding (decoder_private (snd (AU_read be rd s))) = encoding (decoder_private s)"
    and "buffer (snd (AU_read be rd s)) =
           (if encoding (decoder_private s) = AU_ENC_ULAW_8
            then ulaw_expand be (AU_buf_offset s) (length bs) 0
                   (store_bytes (buffer s) (AU_buf_offset s) bs)
            else store_bytes (buffer s) (AU_buf_offset s) bs)"
    and "flags (snd (AU_read be rd s)) =
           (if length bs < unat (AU_maxlen s)
            then insert SOUND_SAMPLEFLAG_EAGAIN (flags s) else flags s)"
    and "rw (snd (AU_read be rd s)) = rw'"
    and "buffer_size (snd (AU_read be rd s)) = buffer_size s"
proof -
  define ret where "ret = (of_nat (length bs) :: 32 word)"
  note b = bounded_length [OF le]
  have u: "unat ret = length bs" and si: "sint ret = int (length bs)"
    by (simp_all only: ret_def b)
  have r0: "ret \<noteq> 0"
  proof
    assume "ret = 0"
    then have "unat ret = 0" by simp
    with u ne show False by simp
  qed
  have r1: "ret \<noteq> - 1"
  proof
    assume "ret = - 1"
    then have "sint ret = - 1" by simp
    with si show False by simp
  qed
  have n: "nat (sint ret) = length bs" by (simp add: si)
  have "0 \<le> sint (AU_maxlen s)" using le by simp
  then have "sint (AU_maxlen s) = uint (AU_maxlen s)" by (rule sint_nonneg_uint)
  then have sm: "sint (AU_maxlen s) = int (unat (AU_maxlen s))" by (simp only: uint_nat)
  have lt: "ret <s AU_maxlen s \<longleftrightarrow> length bs < unat (AU_maxlen s)"
    by (simp only: word_sless_alt si sm of_nat_less_iff)
  have rr: "rwread_ret (Some bs) = ret" by (simp add: rwread_ret_def ret_def)
  show "fst (AU_read be rd s) =
           (if encoding (decoder_private s) = AU_ENC_ULAW_8
            then push_bit 1 (of_nat (length bs)) else of_nat (length bs))"
    using r0 r1 by (simp add: AU_read_def Let_def rd rr) (simp add: ret_def)
  show "remaining (decoder_private (snd (AU_read be rd s))) =
           remaining (decoder_private s) - of_nat (length bs)"
    using r0 r1 by (simp add: AU_read_def Let_def rd rr) (simp add: ret_def)
  show "encoding (decoder_private (snd (AU_read be rd s))) = encoding (decoder_private s)"
    using r0 r1 by (simp add: AU_read_def Let_def rd rr)
  show "buffer (snd (AU_read be rd s)) =
           (if encoding (decoder_private s) = AU_ENC_ULAW_8
            then ulaw_expand be (AU_buf_offset s) (length bs) 0
                   (store_bytes (buffer s) (AU_buf_offset s) bs)
            else store_bytes (buffer s) (AU_buf_offset s) bs)"
    using r0 r1 by (simp add: AU_read_def Let_def rd rr n)
  show "flags (snd (AU_read be rd s)) =
           (if length bs < unat (AU_maxlen s)
            then insert SOUND_SAMPLEFLAG_EAGAIN (flags s) else flags s)"
    using r0 r1 by (simp add: AU_read_def Let_def rd rr lt)
  show "rw (snd (AU_read be rd s)) = rw'"
    using r0 r1 by (simp add: AU_read_def Let_def rd rr)
  show "buffer_size (snd (AU_read be rd s)) = buffer_size s"
    using r0 r1 by (simp add: AU_read_def Let_def rd rr)
qed


lemma AU_read_step_remaining:
  assumes bounded: "RWread_bounded rd"
  shows "unat (remaining (decoder_private (snd (AU_read be rd s)))) + AU_raw_count rd s
           = unat (remaining (decoder_private s))
         \<and> AU_raw_count rd s \<le> unat (AU_maxlen s)"
proof -
  obtain res rw' where rd: "rd (rw s) (AU_maxlen s) = (res, rw')"
    by (cases "rd (rw s) (AU_maxlen s)")
  show ?thesis
  proof (cases res)
    case None
    with rd have "AU_read be rd s = (- 1, s\<lparr> rw := rw', flags := insert SOUND_SAMPLEFLAG_ERROR (flags s) \<rparr>)"
      by (simp add: AU_read_None)
    with rd None show ?thesis by (simp add: AU_raw_count_def)
  next
    case (Some bs)
    show ?thesis
    proof (cases "bs = []")
      case True
      with rd Some have "AU_read be rd s =
           (0, s\<lparr> rw := rw', buffer := store_bytes (buffer s) (AU_buf_offset s) [],
                   flags := insert SOUND_SAMPLEFLAG_EOF (flags s) \<rparr>)"
        by (simp add: AU_read_Nil)
      with rd Some True show ?thesis by (simp add: AU_raw_count_def)
    next
      case False
      have rd': "rd (rw s) (AU_maxlen s) = (Some bs, rw')" using rd Some by simp
      then have "fst (rd (rw s) (AU_maxlen s)) = Some bs" by simp
      with bounded have le: "int (length bs) \<le> sint (AU_maxlen s)"
        unfolding RWread_bounded_def by blast
      note b = bounded_length [OF le]
      have cnt: "AU_raw_count rd s = length bs" using rd' by (simp add: AU_raw_count_def)
      have "unat (AU_maxlen s) \<le> unat (remaining (decoder_private s))"
        using AU_maxlen_le_remaining [of s] by (simp only: word_le_nat_alt)
      with b(1) have lr: "length bs \<le> unat (remaining (decoder_private s))" by (rule order_trans)
      then have "(of_nat (length bs) :: 32 word) \<le> remaining (decoder_private s)"
        by (simp only: word_le_nat_alt b(2))
      then have "unat (remaining (decoder_private s) - of_nat (length bs))
                   = unat (remaining (decoder_private s)) - length bs"
        by (simp only: unat_sub b(2))
      with lr have "unat (remaining (decoder_private (snd (AU_read be rd s)))) + length bs
                   = unat (remaining (decoder_private s))"
        by (simp only: AU_read_data(2) [where rd = rd, OF rd' False le])
      with b(1) show ?thesis by (simp only: cnt)
    qed
  qed
qed

lemma AU_read_step_eof:
  assumes bounded: "RWread_bounded rd"
  shows "SOUND_SAMPLEFLAG_EOF \<in> flags (snd (AU_read be rd s)) \<longleftrightarrow>
           SOUND_SAMPLEFLAG_EOF \<in> flags s \<or> fst (rd (rw s) (AU_maxlen s)) = Some []"
proof -
  obtain res rw' where rd: "rd (rw s) (AU_maxlen s) = (res, rw')"
    by (cases "rd (rw s) (AU_maxlen s)")
  show ?thesis
  proof (cases res)
    case None
    with rd show ?thesis by (simp add: AU_read_None)
  next
    case (Some bs)
    show ?thesis
    proof (cases "bs = []")
      case True
      with rd Some show ?thesis by (simp add: AU_read_Nil)
    next
      case False
      have rd': "rd (rw s) (AU_maxlen s) = (Some bs, rw')" using rd Some by simp
      then have "fst (rd (rw s) (AU_maxlen s)) = Some bs" by simp
      with bounded have le: "int (length bs) \<le> sint (AU_maxlen s)"
        unfolding RWread_bounded_def by blast
      show ?thesis using False rd' by (simp add: AU_read_data(5) [where rd = rd, OF rd' False le])
    qed
  qed
qed

lemma AU_maxlen_zero: "remaining (decoder_private s) = 0 \<Longrightarrow> AU_maxlen s = 0"
  by (auto simp: AU_maxlen_def word_gt_0)

lemma AU_read_at_zero:
  assumes bounded: "RWread_bounded rd" and z: "remaining (decoder_private s) = 0"
  shows "SOUND_SAMPLEFLAG_EOF \<in> flags (snd (AU_read be rd s))
         \<or> SOUND_SAMPLEFLAG_ERROR \<in> flags (snd (AU_read be rd s))"
proof -
  have m: "AU_maxlen s = 0" using z by (rule AU_maxlen_zero)
  obtain res rw' where rd: "rd (rw s) (AU_maxlen s) = (res, rw')"
    by (cases "rd (rw s) (AU_maxlen s)")
  show ?thesis
  proof (cases res)
    case None
    with rd show ?thesis by (simp add: AU_read_None)
  next
    case (Some bs)
    with rd have "fst (rd (rw s) (AU_maxlen s)) = Some bs" by simp
    with bounded have "int (length bs) \<le> sint (AU_maxlen s)"
      unfolding RWread_bounded_def by blast
    then have "bs = []" by (simp add: m)
    with rd Some show ?thesis by (simp add: AU_read_Nil)
  qed
qed

lemma mem_RWread_bounded: "RWread_bounded mem_RWread"
proof -
  have "int (length bs) \<le> sint maxnum" if "fst (mem_RWread data maxnum) = Some bs"
    for data maxnum bs
  proof -
    from that have nn: "0 \<le> sint maxnum" and bs: "bs = take (unat maxnum) data"
      by (auto simp: mem_RWread_def word_sless_alt split: if_splits)
    have "sint maxnum = uint maxnum" using nn by (rule sint_nonneg_uint)
    then have sm: "sint maxnum = int (unat maxnum)" by (simp only: uint_nat)
    have "length bs \<le> unat maxnum" by (simp add: bs)
    then have "int (length bs) \<le> int (unat maxnum)" by (simp only: of_nat_le_iff)
    then show ?thesis unfolding sm .
  qed
  then show ?thesis unfolding RWread_bounded_def by blast
qed

text \<open>
  When the stream delivers a nonzero number of bytes to \<^verbatim>\<open>AU_read\<close> (no more than it
  was asked for), \<open>remaining\<close> decreases by exactly that number, without wrapping around.
\<close>

lemma AU_read_decrements_remaining:
  assumes "rd (rw s) (AU_maxlen s) = (Some bs, rw')"
    and "bs \<noteq> []"
    and "int (length bs) \<le> sint (AU_maxlen s)"
  shows "remaining (decoder_private (snd (AU_read be rd s)))
           = remaining (decoder_private s) - of_nat (length bs)
         \<and> length bs \<le> unat (remaining (decoder_private s))
         \<and> unat (remaining (decoder_private (snd (AU_read be rd s))))
           = unat (remaining (decoder_private s)) - length bs"
proof -
  note b = bounded_length [OF assms(3)]
  have "unat (AU_maxlen s) \<le> unat (remaining (decoder_private s))"
    using AU_maxlen_le_remaining [of s] by (simp only: word_le_nat_alt)
  with b(1) have lr: "length bs \<le> unat (remaining (decoder_private s))" by (rule order_trans)
  then have "(of_nat (length bs) :: 32 word) \<le> remaining (decoder_private s)"
    by (simp only: word_le_nat_alt b(2))
  then have "unat (remaining (decoder_private s) - of_nat (length bs))
               = unat (remaining (decoder_private s)) - length bs"
    by (simp only: unat_sub b(2))
  with lr show ?thesis by (simp only: AU_read_data(2) [where rd = rd, OF assms])
qed

text \<open>
  On the sample with 10 bytes declared and a stream of 5: the read gets 5 bytes and
  \<open>remaining\<close> goes from 10 to 5.
\<close>

lemma AU_read_decrements_remaining_witness:
  "mem_RWread (rw truncated_sample) (AU_maxlen truncated_sample) = (Some [1, 2, 3, 4, 5], [])
   \<and> remaining (decoder_private truncated_sample) = 10
   \<and> remaining (decoder_private (snd (AU_read False mem_RWread truncated_sample))) = 5"
proof -
  have rd: "mem_RWread (rw truncated_sample) (AU_maxlen truncated_sample) = (Some [1, 2, 3, 4, 5], [])"
    by code_simp
  have ne: "[1, 2, 3, 4, 5 :: 8 word] \<noteq> []" by simp
  have m: "AU_maxlen truncated_sample = 10" by code_simp
  have le: "int (length [1, 2, 3, 4, 5 :: 8 word]) \<le> sint (AU_maxlen truncated_sample)"
    by (simp add: m)
  have r: "remaining (decoder_private truncated_sample) = 10" by code_simp
  from AU_read_decrements_remaining [where rd = mem_RWread and be = False, OF rd ne le] rd r
  show ?thesis by simp
qed

text \<open>
  C3 (the code decrements the unbounded value). \<^verbatim>\<open>AU_open\<close> with the hint "au" on a
  stream without the magic value sets \<open>remaining\<close> to \<open>0xFFFFFFFF\<close>, which its comment
  calls ``no limit''. \<^verbatim>\<open>AU_read\<close> on such a sample, with a buffer of 8 bytes, reads 4 raw
  bytes (8 bytes returned) and leaves \<open>remaining = 0xFFFFFFFB\<close>: the value is not left
  unchanged, it counts down like a declared size.
\<close>

theorem AU_read_decrements_unbounded_remaining:
  "remaining (decoder_private
      (projr (AU_open (Some \<lparr> remaining = 7, encoding = 99 \<rparr>) mem_RWread mem_RWseek
                unopened_sample ''au''))) = 0xFFFFFFFF
   \<and> remaining (decoder_private ulaw_sample) = 0xFFFFFFFF
   \<and> fst (AU_read False mem_RWread ulaw_sample) = 8
   \<and> remaining (decoder_private (snd (AU_read False mem_RWread ulaw_sample))) = 0xFFFFFFFB"
  by code_simp

text \<open>
  The length asked of the stream depends on \<open>remaining\<close> alone once the buffer has room
  for a raw byte, and that room does not change from read to read.
\<close>

lemma AU_read_keeps_maxlen0: "AU_maxlen0 (snd (AU_read be rd s)) = AU_maxlen0 s"
  by (simp add: AU_read_def AU_maxlen0_def Let_def split: prod.splits)

lemma AU_read_iter_keeps_maxlen0: "AU_maxlen0 (AU_read_iter be rd n s) = AU_maxlen0 s"
  by (induction n) (simp_all add: AU_read_keeps_maxlen0)

lemma AU_maxlen_zero_iff:
  assumes "0 < AU_maxlen0 s"
  shows "AU_maxlen s = 0 \<longleftrightarrow> remaining (decoder_private s) = 0"
  using assms by (auto simp: AU_maxlen_def)

lemma AU_read_first_eof:
  assumes bounded: "RWread_bounded rd"
    and room: "0 < AU_maxlen0 s"
    and fed: "AU_maxlen s \<noteq> 0 \<longrightarrow> fst (rd (rw s) (AU_maxlen s)) \<noteq> Some []"
    and before: "SOUND_SAMPLEFLAG_EOF \<notin> flags s"
    and after: "SOUND_SAMPLEFLAG_EOF \<in> flags (snd (AU_read be rd s))"
  shows "remaining (decoder_private s) = 0
         \<and> remaining (decoder_private (snd (AU_read be rd s))) = 0"
proof -
  from AU_read_step_eof [OF bounded, of be s] before after
  have nil: "fst (rd (rw s) (AU_maxlen s)) = Some []" by simp
  with fed have "AU_maxlen s = 0" by blast
  with room have z: "remaining (decoder_private s) = 0" by (simp only: AU_maxlen_zero_iff)
  obtain rw' where "rd (rw s) (AU_maxlen s) = (Some [], rw')"
    using nil by (cases "rd (rw s) (AU_maxlen s)") simp
  then have "AU_read be rd s =
           (0, s\<lparr> rw := rw', buffer := store_bytes (buffer s) (AU_buf_offset s) [],
                   flags := insert SOUND_SAMPLEFLAG_EOF (flags s) \<rparr>)"
    by (rule AU_read_Nil)
  with z show ?thesis by simp
qed

text \<open>
  A stream in memory that holds at least the bytes still declared keeps holding them
  after every read, and delivers at least one byte to every read that asks for one.
\<close>

lemma mem_RWread_holds_declared_step:
  assumes inv: "unat (remaining (decoder_private s)) \<le> length (rw s)"
  shows "(AU_maxlen s \<noteq> 0 \<longrightarrow> fst (mem_RWread (rw s) (AU_maxlen s)) \<noteq> Some [])
         \<and> unat (remaining (decoder_private (snd (AU_read be mem_RWread s))))
             \<le> length (rw (snd (AU_read be mem_RWread s)))"
proof (cases "AU_maxlen s <s 0")
  case True
  then have rd: "mem_RWread (rw s) (AU_maxlen s) = (None, rw s)" by (simp add: mem_RWread_def)
  then have "AU_read be mem_RWread s
               = (- 1, s\<lparr> rw := rw s, flags := insert SOUND_SAMPLEFLAG_ERROR (flags s) \<rparr>)"
    by (rule AU_read_None)
  with rd inv show ?thesis by simp
next
  case False
  define m where "m = unat (AU_maxlen s)"
  define bs where "bs = take m (rw s)"
  have rd: "mem_RWread (rw s) (AU_maxlen s) = (Some bs, drop m (rw s))"
    using False by (simp add: mem_RWread_def bs_def m_def)
  have "0 \<le> sint (AU_maxlen s)" using False by (simp add: word_sless_alt)
  then have "sint (AU_maxlen s) = uint (AU_maxlen s)" by (rule sint_nonneg_uint)
  then have sm: "sint (AU_maxlen s) = int m" by (simp only: uint_nat m_def)
  have "m \<le> unat (remaining (decoder_private s))"
    using AU_maxlen_le_remaining [of s] by (simp only: word_le_nat_alt m_def)
  with inv have ml: "m \<le> length (rw s)" by simp
  then have lbs: "length bs = m" by (simp add: bs_def)
  have le: "int (length bs) \<le> sint (AU_maxlen s)" by (simp only: lbs sm)
  show ?thesis
  proof (cases "m = 0")
    case True
    then have "bs = []" by (simp add: bs_def)
    with rd True have rd0: "mem_RWread (rw s) (AU_maxlen s) = (Some [], rw s)" by simp
    then have "AU_read be mem_RWread s =
           (0, s\<lparr> rw := rw s, buffer := store_bytes (buffer s) (AU_buf_offset s) [],
                   flags := insert SOUND_SAMPLEFLAG_EOF (flags s) \<rparr>)"
      by (rule AU_read_Nil)
    moreover have "AU_maxlen s = 0" using True by (simp add: m_def unat_eq_zero)
    ultimately show ?thesis using inv by simp
  next
    case False
    then have ne: "bs \<noteq> []" using lbs by auto
    note d = AU_read_decrements_remaining [where rd = mem_RWread and be = be, OF rd ne le]
    have r: "rw (snd (AU_read be mem_RWread s)) = drop m (rw s)"
      by (rule AU_read_data(6) [where rd = mem_RWread, OF rd ne le])
    have "fst (mem_RWread (rw s) (AU_maxlen s)) \<noteq> Some []" using rd ne by simp
    moreover have "unat (remaining (decoder_private (snd (AU_read be mem_RWread s))))
             \<le> length (rw (snd (AU_read be mem_RWread s)))"
    proof -
      have u: "unat (remaining (decoder_private (snd (AU_read be mem_RWread s))))
                 = unat (remaining (decoder_private s)) - length bs"
        using d by (rule conjunct2 [THEN conjunct2])
      have "unat (remaining (decoder_private s)) - m \<le> length (rw s) - m"
        using inv by arith
      then show ?thesis by (simp only: u r lbs length_drop)
    qed
    ultimately show ?thesis by simp
  qed
qed

lemma mem_RWread_holds_declared:
  assumes "unat (remaining (decoder_private s)) \<le> length (rw s)"
  shows "unat (remaining (decoder_private (AU_read_iter be mem_RWread n s)))
           \<le> length (rw (AU_read_iter be mem_RWread n s))
         \<and> (AU_maxlen (AU_read_iter be mem_RWread n s) \<noteq> 0 \<longrightarrow>
              fst (mem_RWread (rw (AU_read_iter be mem_RWread n s))
                     (AU_maxlen (AU_read_iter be mem_RWread n s))) \<noteq> Some [])"
proof -
  have inv: "unat (remaining (decoder_private (AU_read_iter be mem_RWread n s)))
           \<le> length (rw (AU_read_iter be mem_RWread n s))"
  proof (induction n)
    case 0
    show ?case using assms by simp
  next
    case (Suc n)
    from mem_RWread_holds_declared_step [OF Suc, of be] show ?case by simp
  qed
  from inv mem_RWread_holds_declared_step [OF inv, of be] show ?thesis by blast
qed

text \<open>
  C4 (amended). Over a stream whose read never delivers more than it was asked for, for
  every number \<open>n\<close> of \<^verbatim>\<open>AU_read\<close> calls: \<open>remaining\<close> after them plus the raw bytes they
  consumed is \<open>remaining\<close> at the start (it never wraps below zero); the next read consumes
  no more raw bytes than \<open>remaining\<close> holds; END_OF_STREAM is set by exactly the reads to
  which the stream delivers zero bytes; once \<open>remaining\<close> is 0 the stream is asked for 0
  bytes and the read sets END_OF_STREAM or ERROR; and \<open>remaining\<close> is exactly 0 when
  END_OF_STREAM is first set, provided the buffer has room for a raw byte and the stream
  had not run out before the declared data: the read that sets the flag, if it asked for
  at least one byte, was delivered at least one.
\<close>

theorem AU_read_iter_remaining:
  assumes "RWread_bounded rd"
  shows "unat (remaining (decoder_private (AU_read_iter be rd n s))) + AU_raw_total be rd n s
           = unat (remaining (decoder_private s))
         \<and> AU_raw_count rd (AU_read_iter be rd n s)
             \<le> unat (remaining (decoder_private (AU_read_iter be rd n s)))
         \<and> (SOUND_SAMPLEFLAG_EOF \<in> flags (AU_read_iter be rd (Suc n) s) \<longleftrightarrow>
              SOUND_SAMPLEFLAG_EOF \<in> flags (AU_read_iter be rd n s)
              \<or> fst (rd (rw (AU_read_iter be rd n s)) (AU_maxlen (AU_read_iter be rd n s))) = Some [])
         \<and> (remaining (decoder_private (AU_read_iter be rd n s)) = 0 \<longrightarrow>
              AU_maxlen (AU_read_iter be rd n s) = 0
              \<and> (SOUND_SAMPLEFLAG_EOF \<in> flags (AU_read_iter be rd (Suc n) s)
                 \<or> SOUND_SAMPLEFLAG_ERROR \<in> flags (AU_read_iter be rd (Suc n) s)))
         \<and> (0 < AU_maxlen0 s
              \<and> (AU_maxlen (AU_read_iter be rd n s) \<noteq> 0 \<longrightarrow>
                   fst (rd (rw (AU_read_iter be rd n s)) (AU_maxlen (AU_read_iter be rd n s)))
                     \<noteq> Some [])
              \<and> SOUND_SAMPLEFLAG_EOF \<notin> flags (AU_read_iter be rd n s)
              \<and> SOUND_SAMPLEFLAG_EOF \<in> flags (AU_read_iter be rd (Suc n) s)
             \<longrightarrow> remaining (decoder_private (AU_read_iter be rd (Suc n) s)) = 0)"
proof -
  have a: "unat (remaining (decoder_private (AU_read_iter be rd n s))) + AU_raw_total be rd n s
             = unat (remaining (decoder_private s))"
  proof (induction n)
    case 0
    show ?case by simp
  next
    case (Suc n)
    from AU_read_step_remaining [OF assms, of be "AU_read_iter be rd n s"] Suc
    show ?case by simp
  qed
  have "unat (AU_maxlen (AU_read_iter be rd n s))
          \<le> unat (remaining (decoder_private (AU_read_iter be rd n s)))"
    using AU_maxlen_le_remaining [of "AU_read_iter be rd n s"] by (simp only: word_le_nat_alt)
  with AU_read_step_remaining [OF assms, of be "AU_read_iter be rd n s"]
  have b: "AU_raw_count rd (AU_read_iter be rd n s)
             \<le> unat (remaining (decoder_private (AU_read_iter be rd n s)))"
    by simp
  have c: "remaining (decoder_private (AU_read_iter be rd (Suc n) s)) = 0"
    if "0 < AU_maxlen0 s"
      and "AU_maxlen (AU_read_iter be rd n s) \<noteq> 0 \<longrightarrow>
             fst (rd (rw (AU_read_iter be rd n s)) (AU_maxlen (AU_read_iter be rd n s))) \<noteq> Some []"
      and "SOUND_SAMPLEFLAG_EOF \<notin> flags (AU_read_iter be rd n s)"
      and "SOUND_SAMPLEFLAG_EOF \<in> flags (AU_read_iter be rd (Suc n) s)"
  proof -
    have room: "0 < AU_maxlen0 (AU_read_iter be rd n s)"
      using that(1) by (simp only: AU_read_iter_keeps_maxlen0)
    have after: "SOUND_SAMPLEFLAG_EOF \<in> flags (snd (AU_read be rd (AU_read_iter be rd n s)))"
      using that(4) by simp
    from AU_read_first_eof [OF assms room that(2) that(3) after] show ?thesis by simp
  qed
  have d: "SOUND_SAMPLEFLAG_EOF \<in> flags (AU_read_iter be rd (Suc n) s) \<longleftrightarrow>
              SOUND_SAMPLEFLAG_EOF \<in> flags (AU_read_iter be rd n s)
              \<or> fst (rd (rw (AU_read_iter be rd n s)) (AU_maxlen (AU_read_iter be rd n s))) = Some []"
    using AU_read_step_eof [OF assms, of be "AU_read_iter be rd n s"] by simp
  have e: "remaining (decoder_private (AU_read_iter be rd n s)) = 0 \<longrightarrow>
              AU_maxlen (AU_read_iter be rd n s) = 0
              \<and> (SOUND_SAMPLEFLAG_EOF \<in> flags (AU_read_iter be rd (Suc n) s)
                 \<or> SOUND_SAMPLEFLAG_ERROR \<in> flags (AU_read_iter be rd (Suc n) s))"
    using AU_read_at_zero [OF assms, of "AU_read_iter be rd n s" be]
          AU_maxlen_zero [of "AU_read_iter be rd n s"]
    by simp
  have c': "0 < AU_maxlen0 s
              \<and> (AU_maxlen (AU_read_iter be rd n s) \<noteq> 0 \<longrightarrow>
                   fst (rd (rw (AU_read_iter be rd n s)) (AU_maxlen (AU_read_iter be rd n s)))
                     \<noteq> Some [])
              \<and> SOUND_SAMPLEFLAG_EOF \<notin> flags (AU_read_iter be rd n s)
              \<and> SOUND_SAMPLEFLAG_EOF \<in> flags (AU_read_iter be rd (Suc n) s)
             \<longrightarrow> remaining (decoder_private (AU_read_iter be rd (Suc n) s)) = 0"
    using c by blast
  show ?thesis by (rule conjI [OF a conjI [OF b conjI [OF d conjI [OF e c']]]])
qed

text \<open>
  The theorem on the sample with 10 bytes declared over a stream of exactly 10 bytes:
  the first read consumes them all, sets no END_OF_STREAM and leaves \<open>remaining = 0\<close>; the
  second asks for 0 bytes and is the first to set END_OF_STREAM, with \<open>remaining = 0\<close>.
\<close>

theorem AU_read_iter_remaining_witness:
  "RWread_bounded mem_RWread
   \<and> remaining (decoder_private declared_ten_sample) = 10
   \<and> AU_raw_total False mem_RWread 1 declared_ten_sample = 10
   \<and> remaining (decoder_private (AU_read_iter False mem_RWread 1 declared_ten_sample)) = 0
   \<and> AU_maxlen (AU_read_iter False mem_RWread 1 declared_ten_sample) = 0
   \<and> SOUND_SAMPLEFLAG_EOF \<notin> flags (AU_read_iter False mem_RWread 1 declared_ten_sample)
   \<and> SOUND_SAMPLEFLAG_EOF \<in> flags (AU_read_iter False mem_RWread 2 declared_ten_sample)
   \<and> remaining (decoder_private (AU_read_iter False mem_RWread 2 declared_ten_sample)) = 0"
proof -
  have i: "unat (remaining (decoder_private declared_ten_sample)) = 10"
    by (simp add: declared_ten_sample_def)
  have i': "remaining (decoder_private declared_ten_sample) = 10"
    by (simp add: declared_ten_sample_def)
  have room: "0 < AU_maxlen0 declared_ten_sample" by code_simp
  have held: "unat (remaining (decoder_private declared_ten_sample)) \<le> length (rw declared_ten_sample)"
    by (simp add: declared_ten_sample_def)
  note fed = mem_RWread_holds_declared [OF held, of False 1, THEN conjunct2]
  have e1: "SOUND_SAMPLEFLAG_EOF \<notin> flags (AU_read_iter False mem_RWread 1 declared_ten_sample)"
    by code_simp
  have e2: "SOUND_SAMPLEFLAG_EOF \<in> flags (AU_read_iter False mem_RWread 2 declared_ten_sample)"
    by code_simp
  have z: "remaining (decoder_private (AU_read_iter False mem_RWread 1 declared_ten_sample)) = 0"
    by code_simp
  have s2: "Suc 1 = 2" by simp
  note t = AU_read_iter_remaining [OF mem_RWread_bounded, of False 1 declared_ten_sample]
  from t z i have tot: "AU_raw_total False mem_RWread 1 declared_ten_sample = 10" by simp
  from t z have m: "AU_maxlen (AU_read_iter False mem_RWread 1 declared_ten_sample) = 0" by blast
  from t room fed e1 e2
  have last: "remaining (decoder_private (AU_read_iter False mem_RWread 2 declared_ten_sample)) = 0"
    unfolding s2 by blast
  from mem_RWread_bounded i' tot z m e1 e2 last show ?thesis by simp
qed

text \<open>
  C4 as stated, for every stream, fails when the stream ends early: with 10 bytes
  declared and a stream of 5, the second read is the first to set END_OF_STREAM, and
  \<open>remaining\<close> is 5 then.
\<close>

theorem AU_read_EOF_with_bytes_remaining:
  "remaining (decoder_private truncated_sample) = 10
   \<and> SOUND_SAMPLEFLAG_EOF \<notin> flags (AU_read_iter False mem_RWread 1 truncated_sample)
   \<and> SOUND_SAMPLEFLAG_EOF \<in> flags (AU_read_iter False mem_RWread 2 truncated_sample)
   \<and> remaining (decoder_private (AU_read_iter False mem_RWread 2 truncated_sample)) = 5"
  by code_simp

section \<open>The container decoder: in-place expansion\<close>


lemma length_sample_bytes: "length (sample_bytes be v) = 2"
  by (simp add: sample_bytes_def)

lemma length_ulaw_expand_copy: "length (ulaw_expand_copy be raw) = 2 * length raw"
  by (induction raw) (simp_all add: ulaw_expand_copy_def length_sample_bytes)

lemma ulaw_expand_copy_snoc:
  "ulaw_expand_copy be (raw @ [b]) = ulaw_expand_copy be raw @ sample_bytes be (ulaw_to_linear b)"
  by (simp add: ulaw_expand_copy_def)

lemma store16_append:
  assumes "length pre = 2 * i" and "2 \<le> length rest"
  shows "store16 be (pre @ rest) i v = pre @ sample_bytes be v @ drop 2 rest"
proof -
  obtain x y rest' where r: "rest = x # y # rest'"
    using assms(2) by (cases rest; cases "tl rest") auto
  show ?thesis
    using assms(1) by (simp add: store16_def r list_update_append sample_bytes_def)
qed

lemma ulaw_expand_from:
  assumes "i \<le> n" and "n \<le> h" and "h + n \<le> length buf"
  shows "ulaw_expand be h n i (ulaw_expand_copy be (take i (drop h buf)) @ drop (2 * i) buf)
           = ulaw_expand_copy be (take n (drop h buf)) @ drop (2 * n) buf"
  using assms
proof (induction "n - i" arbitrary: i)
  case 0
  then have "i = n" by simp
  then show ?case by (subst ulaw_expand.simps) simp
next
  case (Suc d)
  then have lt: "i < n" by simp
  define pre where "pre = ulaw_expand_copy be (take i (drop h buf))"
  define rest where "rest = drop (2 * i) buf"
  have li: "length (take i (drop h buf)) = i" using lt Suc.prems by simp
  have lpre: "length pre = 2 * i" by (simp only: pre_def length_ulaw_expand_copy li)
  have lrest: "2 \<le> length rest" using lt Suc.prems by (simp add: rest_def)
  have src: "(pre @ rest) ! (h + i) = drop h buf ! i"
  proof -
    have "2 * i \<le> h + i" using lt Suc.prems by simp
    then have "(pre @ rest) ! (h + i) = rest ! (h + i - 2 * i)"
      by (simp add: nth_append lpre)
    also have "\<dots> = buf ! (2 * i + (h + i - 2 * i))"
      using lt Suc.prems by (simp add: rest_def)
    also have "2 * i + (h + i - 2 * i) = h + i" using \<open>2 * i \<le> h + i\<close> by simp
    also have "buf ! (h + i) = drop h buf ! i" using lt Suc.prems by simp
    finally show ?thesis .
  qed
  have tk: "take (Suc i) (drop h buf) = take i (drop h buf) @ [drop h buf ! i]"
    using lt Suc.prems by (simp add: take_Suc_conv_app_nth)
  have "store16 be (pre @ rest) i (ulaw_to_linear ((pre @ rest) ! (h + i)))
          = pre @ sample_bytes be (ulaw_to_linear ((pre @ rest) ! (h + i))) @ drop 2 rest"
    using lpre lrest by (rule store16_append)
  also have "\<dots> = pre @ sample_bytes be (ulaw_to_linear (drop h buf ! i)) @ drop 2 rest"
    by (simp only: src)
  also have "\<dots> = ulaw_expand_copy be (take (Suc i) (drop h buf)) @ drop (2 * Suc i) buf"
    by (simp add: tk ulaw_expand_copy_snoc pre_def rest_def)
  finally have st: "store16 be (pre @ rest) i (ulaw_to_linear ((pre @ rest) ! (h + i)))
              = ulaw_expand_copy be (take (Suc i) (drop h buf)) @ drop (2 * Suc i) buf" .
  have "ulaw_expand be h n i (pre @ rest)
          = ulaw_expand be h n (Suc i)
              (store16 be (pre @ rest) i (ulaw_to_linear ((pre @ rest) ! (h + i))))"
    using lt by (subst ulaw_expand.simps) simp
  also have "\<dots> = ulaw_expand be h n (Suc i)
                      (ulaw_expand_copy be (take (Suc i) (drop h buf)) @ drop (2 * Suc i) buf)"
    by (simp only: st)
  also have "\<dots> = ulaw_expand_copy be (take n (drop h buf)) @ drop (2 * n) buf"
    using Suc.hyps Suc.prems lt by (intro Suc.hyps(1)) simp_all
  finally show ?case by (simp only: pre_def rest_def)
qed

lemma ulaw_expand_state:
  assumes "n \<le> h" and "h + n \<le> length buf"
  shows "ulaw_expand be h n 0 buf = ulaw_expand_copy be (take n (drop h buf)) @ drop (2 * n) buf"
  using ulaw_expand_from [of 0 n h buf be] assms by (simp add: ulaw_expand_copy_def)

lemma ulaw_expand_source_intact:
  assumes "i < n" and "n \<le> h" and "h + n \<le> length buf"
  shows "ulaw_expand be h i 0 buf ! (h + i) = buf ! (h + i)"
    and "ulaw_expand be h n 0 buf = ulaw_expand be h n i (ulaw_expand be h i 0 buf)"
proof -
  have i: "i \<le> h" "h + i \<le> length buf" using assms by simp_all
  have st: "ulaw_expand be h i 0 buf = ulaw_expand_copy be (take i (drop h buf)) @ drop (2 * i) buf"
    using i by (rule ulaw_expand_state)
  have li: "length (take i (drop h buf)) = i" using assms by simp
  have lpre: "length (ulaw_expand_copy be (take i (drop h buf))) = 2 * i"
    by (simp only: length_ulaw_expand_copy li)
  have "2 * i \<le> h + i" using i by simp
  then have "\<not> h + i < 2 * i" by simp
  then have "(ulaw_expand_copy be (take i (drop h buf)) @ drop (2 * i) buf) ! (h + i)
               = drop (2 * i) buf ! (h + i - 2 * i)"
    by (simp only: nth_append lpre if_False)
  also have "\<dots> = buf ! (2 * i + (h + i - 2 * i))" using assms by simp
  also have "2 * i + (h + i - 2 * i) = h + i" using \<open>2 * i \<le> h + i\<close> by simp
  finally show "ulaw_expand be h i 0 buf ! (h + i) = buf ! (h + i)" by (simp only: st)
  have "ulaw_expand be h n i (ulaw_expand be h i 0 buf)
          = ulaw_expand_copy be (take n (drop h buf)) @ drop (2 * n) buf"
    unfolding st using assms by (intro ulaw_expand_from) simp_all
  then show "ulaw_expand be h n 0 buf = ulaw_expand be h n i (ulaw_expand be h i 0 buf)"
    using ulaw_expand_state [OF assms(2,3), of be] by simp
qed

text \<open>
  C10 (amended). In the in-place expansion loop of \<^verbatim>\<open>AU_read\<close>, with the raw bytes at
  offset \<open>h\<close>, half the buffer length, and a raw byte count \<open>n \<le> h\<close>: the result is the
  expansion from a separate copy of the \<open>n\<close> raw bytes, followed by the untouched rest of
  the buffer; and for every index \<open>i < n\<close>, the state in which step \<open>i\<close> starts is the one
  after \<open>i\<close> steps, and the byte it reads at offset \<open>h + i\<close> (not \<open>n + i\<close>) is still the raw
  byte, not yet overwritten by the writes at offsets \<open>2 * j\<close> and \<open>2 * j + 1\<close> for \<open>j < i\<close>.
\<close>

theorem ulaw_expand_in_place_equals_copy:
  assumes "h = length buf div 2" and "n \<le> h"
  shows "ulaw_expand be h n 0 buf
           = ulaw_expand_copy be (take n (drop h buf)) @ drop (2 * n) buf
         \<and> (\<forall>i<n. ulaw_expand be h n 0 buf = ulaw_expand be h n i (ulaw_expand be h i 0 buf)
                  \<and> ulaw_expand be h i 0 buf ! (h + i) = buf ! (h + i))"
proof -
  have l: "h + n \<le> length buf" using assms by simp
  from ulaw_expand_state [OF assms(2) l, of be]
       ulaw_expand_source_intact [OF _ assms(2) l, of _ be]
  show ?thesis by blast
qed

text \<open>
  The theorem on a buffer of 8 bytes with 4 raw bytes in its second half: the loop
  fills all 8 bytes with the 4 samples.
\<close>

theorem ulaw_expand_in_place_equals_copy_witness:
  "ulaw_expand False 4 4 0 [0, 0, 0, 0, 0x80, 0xFF, 0x00, 0x7F]
     = ulaw_expand_copy False [0x80, 0xFF, 0x00, 0x7F]
   \<and> ulaw_expand False 4 4 0 [0, 0, 0, 0, 0x80, 0xFF, 0x00, 0x7F]
     = [0x7C, 0x7D, 0, 0, 0x84, 0x82, 0, 0]
   \<and> ulaw_expand False 4 3 0 [0, 0, 0, 0, 0x80, 0xFF, 0x00, 0x7F] ! (4 + 3) = 0x7F"
proof -
  have h: "(4 :: nat) = length [0, 0, 0, 0, 0x80, 0xFF, 0x00, 0x7F :: 8 word] div 2" by simp
  have n: "(4 :: nat) \<le> 4" by simp
  have c: "ulaw_expand_copy False [0x80, 0xFF, 0x00, 0x7F] = [0x7C, 0x7D, 0, 0, 0x84, 0x82, 0, 0]"
    by code_simp
  have i: "(3 :: nat) < 4" by simp
  note t = ulaw_expand_in_place_equals_copy [OF h n, of False]
  from t have a: "ulaw_expand False 4 4 0 [0, 0, 0, 0, 0x80, 0xFF, 0x00, 0x7F]
                    = ulaw_expand_copy False (take 4 (drop 4 [0, 0, 0, 0, 0x80, 0xFF, 0x00, 0x7F]))
                        @ drop (2 * 4) [0, 0, 0, 0, 0x80, 0xFF, 0x00, 0x7F]"
    by (rule conjunct1)
  from t i have b: "ulaw_expand False 4 3 0 [0, 0, 0, 0, 0x80, 0xFF, 0x00, 0x7F] ! (4 + 3)
                      = [0, 0, 0, 0, 0x80, 0xFF, 0x00, 0x7F] ! (4 + 3)"
    by blast
  from a b c show ?thesis by simp
qed

text \<open>
  C10 as stated fails when fewer raw bytes were read than half the buffer: with a buffer
  of 8 bytes and one raw byte \<open>0x80\<close> (at offset 4), the byte at offset \<open>n + i = 1\<close> is not
  the source; the loop gives the sample of the byte at offset 4, and expanding the byte at
  offset 1 would give another.
\<close>

theorem ulaw_expand_source_not_at_n_plus_i:
  "AU_buf_offset ulaw_last_byte_sample = 4
   \<and> AU_maxlen ulaw_last_byte_sample = 1
   \<and> buffer (snd (AU_read False mem_RWread ulaw_last_byte_sample))
       = [0x7C, 0x7D, 0, 0, 0x80, 0, 0, 0]
   \<and> ulaw_expand False 4 1 0 [0, 0, 0, 0, 0x80, 0, 0, 0]
       = sample_bytes False (ulaw_to_linear ([0, 0, 0, 0, 0x80, 0, 0, 0] ! (4 + 0)))
           @ drop 2 [0, 0, 0, 0, 0x80, 0, 0, 0]
   \<and> ulaw_expand False 4 1 0 [0, 0, 0, 0, 0x80, 0, 0, 0]
       \<noteq> sample_bytes False (ulaw_to_linear ([0, 0, 0, 0, 0x80, 0, 0, 0] ! (1 + 0)))
           @ drop 2 [0, 0, 0, 0, 0x80, 0, 0, 0]"
  by code_simp

section \<open>The container decoder: a \<mu>-law read\<close>


lemma AU_maxlen_le_maxlen0: "AU_maxlen s \<le> AU_maxlen0 s"
  by (simp add: AU_maxlen_def less_imp_le)

lemma ulaw_half:
  assumes enc: "encoding (decoder_private s) = AU_ENC_ULAW_8"
    and nonneg: "0 \<le> sint (buffer_size s)"
  shows "AU_buf_offset s = unat (buffer_size s) div 2"
    and "unat (AU_maxlen0 s) = unat (buffer_size s) div 2"
proof -
  have "sint (buffer_size s) = uint (buffer_size s)" using nonneg by (rule sint_nonneg_uint)
  then have sb: "sint (buffer_size s) = int (unat (buffer_size s))" by (simp only: uint_nat)
  have m0: "AU_maxlen0 s = signed_drop_bit 1 (buffer_size s)" using enc by (simp add: AU_maxlen0_def)
  have "sint (AU_maxlen0 s) = drop_bit 1 (sint (buffer_size s))"
    by (simp only: m0 sint_signed_drop_bit_eq)
  also have "\<dots> = sint (buffer_size s) div 2" by (simp add: drop_bit_eq_div)
  also have "\<dots> = int (unat (buffer_size s)) div 2" by (simp only: sb)
  also have "\<dots> = int (unat (buffer_size s) div 2)" by (simp only: zdiv_int of_nat_numeral)
  finally have sm: "sint (AU_maxlen0 s) = int (unat (buffer_size s) div 2)" .
  then show "AU_buf_offset s = unat (buffer_size s) div 2"
    using enc by (simp add: AU_buf_offset_def)
  have "0 \<le> sint (AU_maxlen0 s)" by (simp only: sm of_nat_0_le_iff)
  then have "sint (AU_maxlen0 s) = uint (AU_maxlen0 s)" by (rule sint_nonneg_uint)
  then have "sint (AU_maxlen0 s) = int (unat (AU_maxlen0 s))" by (simp only: uint_nat)
  with sm have "int (unat (AU_maxlen0 s)) = int (unat (buffer_size s) div 2)" by (simp only:)
  then show "unat (AU_maxlen0 s) = unat (buffer_size s) div 2" by (simp only: of_nat_eq_iff)
qed

lemma unat_double_32:
  assumes "2 * k \<le> unat (w :: 32 word)"
  shows "unat (push_bit 1 (of_nat k :: 32 word)) = 2 * k"
proof -
  have w: "unat w < 2 ^ LENGTH(32)" by (rule unsigned_less)
  with assms have lt: "2 * k < 2 ^ LENGTH(32)" by (rule le_less_trans)
  have "k \<le> 2 * k" by simp
  then have "k < 2 ^ LENGTH(32)" using lt by (rule le_less_trans)
  then have uk: "unat (of_nat k :: 32 word) = k" by (simp only: unat_of_nat mod_less)
  have "unat (of_nat k :: 32 word) * unat (2 :: 32 word) < 2 ^ LENGTH(32)"
    using lt by (simp add: uk mult.commute)
  then have "unat ((of_nat k :: 32 word) * 2) = unat (of_nat k :: 32 word) * unat (2 :: 32 word)"
    by (simp only: unat_mult_lem [THEN iffD1])
  then have "unat ((of_nat k :: 32 word) * 2) = 2 * k" by (simp add: uk)
  moreover have "push_bit 1 (of_nat k :: 32 word) = of_nat k * 2" by (simp add: push_bit_eq_mult)
  ultimately show ?thesis by (simp only:)
qed

lemma length_store_bytes:
  "off + length bs \<le> length buf \<Longrightarrow> length (store_bytes buf off bs) = length buf"
  by (simp add: store_bytes_def)

lemma store_bytes_source:
  "off + length bs \<le> length buf \<Longrightarrow> take (length bs) (drop off (store_bytes buf off bs)) = bs"
  by (simp add: store_bytes_def)

lemma ulaw_expand_copy_nth:
  "i < length raw \<Longrightarrow>
     take 2 (drop (2 * i) (ulaw_expand_copy be raw @ rest)) = sample_bytes be (ulaw_to_linear (raw ! i))"
proof (induction raw arbitrary: i)
  case Nil
  then show ?case by simp
next
  case (Cons b raw)
  have c: "ulaw_expand_copy be (b # raw) = sample_bytes be (ulaw_to_linear b) @ ulaw_expand_copy be raw"
    by (simp add: ulaw_expand_copy_def)
  show ?case
  proof (cases i)
    case 0
    then show ?thesis by (simp add: c length_sample_bytes)
  next
    case (Suc j)
    with Cons.prems have j: "j < length raw" by simp
    have "drop (2 * i) (ulaw_expand_copy be (b # raw) @ rest)
            = drop (2 * j) (ulaw_expand_copy be raw @ rest)"
      by (simp add: c Suc length_sample_bytes)
    with Cons.IH [OF j] Suc show ?thesis by simp
  qed
qed

text \<open>
  C6 (amended). For an \<^verbatim>\<open>AU_read\<close> on a \<mu>-law sample whose buffer holds \<open>buffer_size\<close>
  bytes (\<open>buffer_size\<close> not negative as an \<^verbatim>\<open>int\<close>) and to which the stream delivers \<open>n > 0\<close>
  raw bytes, no more than requested: the raw bytes are placed at offset
  \<open>buffer_size div 2\<close>, the start of the second half, and the requested length, so also \<open>n\<close>,
  is at most \<open>buffer_size div 2\<close>; afterwards the buffer starts with the \<open>2 * n\<close> bytes of
  the \<open>n\<close> samples, sample \<open>i\<close> at offsets \<open>2 * i\<close> and \<open>2 * i + 1\<close> being the table entry of
  raw byte \<open>i\<close>, followed by what the buffer held from offset \<open>2 * n\<close> on after the raw
  read; the buffer keeps its length; and the returned count is exactly \<open>2 * n\<close>. The
  samples fill the first \<open>2 * n\<close> bytes of the buffer, which reach into the second half as
  soon as \<open>n\<close> exceeds a quarter of the capacity.
\<close>

theorem AU_read_ulaw_expands_in_buffer:
  assumes enc: "encoding (decoder_private s) = AU_ENC_ULAW_8"
    and nonneg: "0 \<le> sint (buffer_size s)"
    and len: "length (buffer s) = unat (buffer_size s)"
    and rd: "rd (rw s) (AU_maxlen s) = (Some bs, rw')"
    and ne: "bs \<noteq> []"
    and le: "int (length bs) \<le> sint (AU_maxlen s)"
  shows "AU_buf_offset s = unat (buffer_size s) div 2
         \<and> unat (AU_maxlen s) \<le> unat (buffer_size s) div 2
         \<and> length bs \<le> unat (buffer_size s) div 2
         \<and> buffer (snd (AU_read be rd s))
             = ulaw_expand_copy be bs
                 @ drop (2 * length bs) (store_bytes (buffer s) (unat (buffer_size s) div 2) bs)
         \<and> (\<forall>i<length bs. take 2 (drop (2 * i) (buffer (snd (AU_read be rd s))))
                             = sample_bytes be (ulaw_to_linear_table ! unat (bs ! i)))
         \<and> length (buffer (snd (AU_read be rd s))) = unat (buffer_size s)
         \<and> unat (fst (AU_read be rd s)) = 2 * length bs"
proof -
  define h where "h = unat (buffer_size s) div 2"
  define buf1 where "buf1 = store_bytes (buffer s) h bs"
  note half = ulaw_half [OF enc nonneg]
  have off: "AU_buf_offset s = h" by (simp only: half(1) h_def)
  have "unat (AU_maxlen s) \<le> unat (AU_maxlen0 s)"
    using AU_maxlen_le_maxlen0 [of s] by (simp only: word_le_nat_alt)
  then have cap: "unat (AU_maxlen s) \<le> h" by (simp only: half(2) h_def)
  note b = bounded_length [OF le]
  from b(1) cap have n: "length bs \<le> h" by (rule order_trans)
  have hl: "h + length bs \<le> length (buffer s)" using n by (simp add: len h_def)
  have l1: "length buf1 = length (buffer s)" unfolding buf1_def using hl by (rule length_store_bytes)
  have src: "take (length bs) (drop h buf1) = bs" unfolding buf1_def using hl by (rule store_bytes_source)
  have hl1: "h + length bs \<le> length buf1" using hl by (simp only: l1)
  have "buffer (snd (AU_read be rd s)) = ulaw_expand be h (length bs) 0 buf1"
    using enc by (simp add: AU_read_data(4) [where rd = rd, OF rd ne le] off buf1_def)
  also have "\<dots> = ulaw_expand_copy be (take (length bs) (drop h buf1)) @ drop (2 * length bs) buf1"
    using n hl1 by (rule ulaw_expand_state)
  finally have res: "buffer (snd (AU_read be rd s)) = ulaw_expand_copy be bs @ drop (2 * length bs) buf1"
    by (simp only: src)
  have samples: "\<forall>i<length bs. take 2 (drop (2 * i) (buffer (snd (AU_read be rd s))))
                             = sample_bytes be (ulaw_to_linear_table ! unat (bs ! i))"
  proof (intro allI impI)
    fix i
    assume "i < length bs"
    then have "take 2 (drop (2 * i) (ulaw_expand_copy be bs @ drop (2 * length bs) buf1))
                 = sample_bytes be (ulaw_to_linear (bs ! i))"
      by (rule ulaw_expand_copy_nth)
    then show "take 2 (drop (2 * i) (buffer (snd (AU_read be rd s))))
                 = sample_bytes be (ulaw_to_linear_table ! unat (bs ! i))"
      by (simp only: res ulaw_to_linear_def)
  qed
  have "2 * length bs \<le> length buf1" using n hl1 by simp
  then have lres: "length (buffer (snd (AU_read be rd s))) = unat (buffer_size s)"
    by (simp add: res length_ulaw_expand_copy l1 len)
  have "2 * length bs \<le> unat (buffer_size s)" using n by (simp add: h_def)
  then have "unat (push_bit 1 (of_nat (length bs) :: 32 word)) = 2 * length bs"
    by (rule unat_double_32)
  then have ret: "unat (fst (AU_read be rd s)) = 2 * length bs"
    using enc by (simp add: AU_read_data(1) [where rd = rd, OF rd ne le])
  from off cap n res samples lres ret show ?thesis
    by (simp only: h_def buf1_def)
qed

text \<open>
  The theorem on the \<mu>-law sample with a buffer of 8 bytes: 4 raw bytes are read to
  offset 4, the 4 samples take all 8 bytes and 8 is returned.
\<close>

theorem AU_read_ulaw_expands_in_buffer_witness:
  "AU_buf_offset ulaw_sample = 4
   \<and> buffer (snd (AU_read False mem_RWread ulaw_sample))
       = ulaw_expand_copy False [0x80, 0xFF, 0x00, 0x7F]
   \<and> take 2 (drop (2 * 2) (buffer (snd (AU_read False mem_RWread ulaw_sample))))
       = sample_bytes False (ulaw_to_linear_table ! unat (0x00 :: 8 word))
   \<and> unat (fst (AU_read False mem_RWread ulaw_sample)) = 8"
proof -
  have enc: "encoding (decoder_private ulaw_sample) = AU_ENC_ULAW_8" by code_simp
  have nonneg: "0 \<le> sint (buffer_size ulaw_sample)" by (simp add: ulaw_sample_def)
  have len: "length (buffer ulaw_sample) = unat (buffer_size ulaw_sample)"
    by (simp add: ulaw_sample_def)
  have rd: "mem_RWread (rw ulaw_sample) (AU_maxlen ulaw_sample) = (Some [0x80, 0xFF, 0x00, 0x7F], [5, 6])"
    by code_simp
  have ne: "[0x80, 0xFF, 0x00, 0x7F :: 8 word] \<noteq> []" by simp
  have m: "AU_maxlen ulaw_sample = 4" by code_simp
  have le: "int (length [0x80, 0xFF, 0x00, 0x7F :: 8 word]) \<le> sint (AU_maxlen ulaw_sample)"
    by (simp add: m)
  have bs: "unat (buffer_size ulaw_sample) = 8" by (simp add: ulaw_sample_def)
  have bf: "buffer ulaw_sample = [0, 0, 0, 0, 0, 0, 0, 0]" by code_simp
  have i: "(2 :: nat) < length [0x80, 0xFF, 0x00, 0x7F :: 8 word]" by simp
  note t = AU_read_ulaw_expands_in_buffer
             [where rd = mem_RWread and be = False, OF enc nonneg len rd ne le]
  from t have 1: "AU_buf_offset ulaw_sample = 4" by (simp add: bs)
  from t have 2: "buffer (snd (AU_read False mem_RWread ulaw_sample))
       = ulaw_expand_copy False [0x80, 0xFF, 0x00, 0x7F]"
    by (simp add: bs bf store_bytes_def)
  from t i have 3: "take 2 (drop (2 * 2) (buffer (snd (AU_read False mem_RWread ulaw_sample))))
       = sample_bytes False (ulaw_to_linear_table ! unat ([0x80, 0xFF, 0x00, 0x7F :: 8 word] ! 2))"
    by blast
  from t have 4: "unat (fst (AU_read False mem_RWread ulaw_sample)) = 8" by simp
  from 1 2 3 4 show ?thesis by simp
qed

text \<open>
  C6 as stated fails: the samples are not all written into the first half. On the
  sample with a buffer of 8 bytes the raw bytes are read to offsets 4 to 7, and after
  the expansion offsets 4 to 7, the second half, hold samples 2 and 3.
\<close>

theorem AU_read_ulaw_writes_second_half:
  "buffer_size ulaw_sample = 8
   \<and> AU_buf_offset ulaw_sample = 4
   \<and> fst (AU_read False mem_RWread ulaw_sample) = 8
   \<and> drop 4 (buffer (snd (AU_read False mem_RWread ulaw_sample)))
       = sample_bytes False (ulaw_to_linear 0x00) @ sample_bytes False (ulaw_to_linear 0x7F)
   \<and> drop 4 (buffer (snd (AU_read False mem_RWread ulaw_sample))) = [0x84, 0x82, 0, 0]"
  by code_simp

text \<open>A read that gets data reports no more bytes than the buffer holds.\<close>


lemma AU_read_data_within_capacity:
  assumes nonneg: "0 \<le> sint (buffer_size s)"
    and rd: "rd (rw s) (AU_maxlen s) = (Some bs, rw')"
    and ne: "bs \<noteq> []"
    and le: "int (length bs) \<le> sint (AU_maxlen s)"
  shows "unat (fst (AU_read be rd s)) \<le> unat (buffer_size s)"
proof (cases "encoding (decoder_private s) = AU_ENC_ULAW_8")
  case True
  have "unat (AU_maxlen s) \<le> unat (AU_maxlen0 s)"
    using AU_maxlen_le_maxlen0 [of s] by (simp only: word_le_nat_alt)
  then have "unat (AU_maxlen s) \<le> unat (buffer_size s) div 2"
    by (simp only: ulaw_half(2) [OF True nonneg])
  with bounded_length(1) [OF le] have "length bs \<le> unat (buffer_size s) div 2"
    by (rule order_trans)
  then have fit: "2 * length bs \<le> unat (buffer_size s)" by simp
  then have "unat (push_bit 1 (of_nat (length bs) :: 32 word)) = 2 * length bs"
    by (rule unat_double_32)
  with fit True show ?thesis
    by (simp add: AU_read_data(1) [where rd = rd, OF rd ne le])
next
  case False
  then have "AU_maxlen0 s = buffer_size s" by (simp add: AU_maxlen0_def)
  then have "unat (AU_maxlen s) \<le> unat (buffer_size s)"
    using AU_maxlen_le_maxlen0 [of s] by (simp only: word_le_nat_alt)
  with bounded_length(1) [OF le] have "length bs \<le> unat (buffer_size s)"
    by (rule order_trans)
  with False show ?thesis
    by (simp add: AU_read_data(1) [where rd = rd, OF rd ne le] bounded_length(2) [OF le])
qed

end
